theory Spec2Isabelle
  imports Complex_Main "HOL-Library.Sublist"
begin

section \<open>Python strings\<close>

text \<open>
  A Python \<open>str\<close> is modelled as a HOL \<open>string\<close>, one \<open>char\<close> per code point; the
  model covers the code points below 256. In that range the decimal digits that the
  regular expression class \<open>\d\<close> accepts are exactly \<open>0\<close> to \<open>9\<close>, and the letters that
  compare equal to an ASCII letter when case is ignored are that letter's two ASCII forms.
\<close>

definition is_digit :: "char \<Rightarrow> bool" where
  "is_digit c = (c \<in> set ''0123456789'')"

definition ascii_lower :: "char \<Rightarrow> char" where
  "ascii_lower c =
     (case map_of (zip ''ABCDEFGHIJKLMNOPQRSTUVWXYZ'' ''abcdefghijklmnopqrstuvwxyz'') c of
        Some l \<Rightarrow> l
      | None \<Rightarrow> c)"

text \<open>
  \<open>str.isspace\<close> on the code points below 256: tab to carriage return, the four
  separators 28 to 31, the space, NEL (133) and the no-break space (160).
\<close>

definition is_space :: "char \<Rightarrow> bool" where
  "is_space c = ((of_char c :: nat) \<in> {9, 10, 11, 12, 13, 28, 29, 30, 31, 32, 133, 160})"

text \<open>\<open>s.strip()\<close>: whitespace removed at both ends.\<close>

definition py_strip :: "string \<Rightarrow> string" where
  "py_strip s = rev (dropWhile is_space (rev (dropWhile is_space s)))"

text \<open>\<open>s.split(sep)\<close> for a one-character separator.\<close>

fun split_sep :: "char \<Rightarrow> string \<Rightarrow> string list" where
  "split_sep sep [] = [[]]"
| "split_sep sep (c # cs) =
     (if c = sep then [] # split_sep sep cs
      else (case split_sep sep cs of
              [] \<Rightarrow> [[c]]
            | x # xs \<Rightarrow> (c # x) # xs))"

text \<open>\<open>s.rfind(c)\<close>: the index of the last occurrence of \<open>c\<close>, or \<open>-1\<close>.\<close>

definition rfind :: "char \<Rightarrow> string \<Rightarrow> int" where
  "rfind c s =
     (if c \<in> set s then int (length s) - 1 - int (length (takeWhile (\<lambda>x. x \<noteq> c) (rev s)))
      else - 1)"

text \<open>The rest of \<open>s\<close> after the prefix \<open>p\<close>, when \<open>s\<close> starts with \<open>p\<close>.\<close>

fun drop_prefix :: "string \<Rightarrow> string \<Rightarrow> string option" where
  "drop_prefix [] s = Some s"
| "drop_prefix (p # ps) [] = None"
| "drop_prefix (p # ps) (c # cs) = (if c = p then drop_prefix ps cs else None)"

section \<open>Paths (pathlib on POSIX)\<close>

text \<open>
  \<open>Path(s).name\<close>: the path is split at \<open>/\<close>, empty components and \<open>.\<close> components are
  dropped, and the name is the last component left (the empty string when none is).
\<close>

definition path_name :: "string \<Rightarrow> string" where
  "path_name s =
     (case filter (\<lambda>x. x \<noteq> [] \<and> x \<noteq> ''.'') (split_sep (CHR ''/'') s) of
        [] \<Rightarrow> []
      | p # ps \<Rightarrow> last (p # ps))"

text \<open>
  \<open>Path(s).suffix\<close> and \<open>Path(s).stem\<close> (CPython 3.12): with \<open>i = name.rfind('.')\<close>, the suffix is
  \<open>name[i:]\<close> and the stem \<open>name[:i]\<close> when \<open>0 < i < len(name) - 1\<close>; otherwise the
  suffix is empty and the stem is the whole name.
\<close>

definition path_suffix :: "string \<Rightarrow> string" where
  "path_suffix s =
     (let name = path_name s; i = rfind (CHR ''.'') name
      in if 0 < i \<and> i < int (length name) - 1 then drop (nat i) name else [])"

definition path_stem :: "string \<Rightarrow> string" where
  "path_stem s =
     (let name = path_name s; i = rfind (CHR ''.'') name
      in if 0 < i \<and> i < int (length name) - 1 then take (nat i) name else name)"

section \<open>Item discovery: the recognised extensions\<close>

definition EXTENSIONS :: "string set" where
  "EXTENSIONS = {''.png'', ''.jpg'', ''.jpeg'', ''.tif'', ''.tiff''}"

text \<open>
  The test \<open>find_images\<close> applies to every file it meets:
  \<open>p.suffix.lower() in EXTENSIONS\<close>. Lower-casing a code point outside \<open>A\<close> to \<open>Z\<close>
  never yields an ASCII character, so on the ASCII members of \<open>EXTENSIONS\<close> the test is
  decided by \<open>ascii_lower\<close>.
\<close>

definition is_image :: "string \<Rightarrow> bool" where
  "is_image p = (map ascii_lower (path_suffix p) \<in> EXTENSIONS)"

section \<open>Filename Correlator\<close>

text \<open>
  A match of the literal \<open>lit\<close> at the start of the subject under \<open>re.IGNORECASE\<close>; the
  result is the rest of the subject after the match.
\<close>

fun match_literal_ci :: "string \<Rightarrow> string \<Rightarrow> string option" where
  "match_literal_ci [] s = Some s"
| "match_literal_ci (p # ps) [] = None"
| "match_literal_ci (p # ps) (c # cs) =
     (if ascii_lower c = ascii_lower p then match_literal_ci ps cs else None)"

text \<open>
  A match of \<open>0*(\d+)\<close> at the start of the subject; the result is group 1. The
  greedy \<open>0*\<close> first takes every zero. When a digit follows, the greedy \<open>\d+\<close> takes
  the whole run of digits from there. When none follows, the matcher backtracks: \<open>0*\<close>
  gives back its last zero, which is then all that \<open>\d+\<close> matches.
\<close>

definition match_zeros_digits :: "string \<Rightarrow> string option" where
  "match_zeros_digits rest =
     (let zeros = takeWhile (\<lambda>c. c = CHR ''0'') rest;
          after = dropWhile (\<lambda>c. c = CHR ''0'') rest;
          digits = takeWhile is_digit after
      in if digits \<noteq> [] then Some digits
         else if zeros \<noteq> [] then Some ''0''
         else None)"

text \<open>A match of \<open>DunnLab0*(\d+)\<close> that starts at the first character of the subject.\<close>

definition match_vendor_here :: "string \<Rightarrow> string option" where
  "match_vendor_here s =
     (case match_literal_ci ''DunnLab'' s of
        None \<Rightarrow> None
      | Some rest \<Rightarrow> match_zeros_digits rest)"

text \<open>\<open>re.search(r'DunnLab0*(\d+)', stem, re.IGNORECASE)\<close>: the leftmost start wins.\<close>

fun search_vendor :: "string \<Rightarrow> string option" where
  "search_vendor [] = None"
| "search_vendor (c # cs) =
     (case match_vendor_here (c # cs) of
        Some g \<Rightarrow> Some g
      | None \<Rightarrow> search_vendor cs)"

text \<open>\<open>re.search(r'(\d+)', stem)\<close>: from the first digit, the longest run of digits.\<close>

definition search_digits :: "string \<Rightarrow> string option" where
  "search_digits s =
     (let r = dropWhile (\<lambda>c. \<not> is_digit c) s
      in if r = [] then None else Some (takeWhile is_digit r))"

definition extract_integer_from_filename :: "string \<Rightarrow> string option" where
  "extract_integer_from_filename filename =
     (let stem = path_stem filename
      in case search_vendor stem of
           Some g \<Rightarrow> Some g
         | None \<Rightarrow>
             (case search_digits stem of
                Some g \<Rightarrow> Some g
              | None \<Rightarrow> None))"

section \<open>Python values\<close>

text \<open>
  The values \<open>json.loads\<close> returns and the pipeline puts into a row: \<open>None\<close>, a bool,
  an int, a float (a finite one, by its exact value), a str, a list, and a dict with
  string keys. A dict is the list of its items; a key is looked up with \<open>map_of\<close>.
\<close>

datatype json =
    JNull
  | JBool bool
  | JInt int
  | JFloat rat
  | JStr string
  | JArr "json list"
  | JObj "(string \<times> json) list"

text \<open>\<open>type(v).__name__\<close>, as the interpreter's error messages print it.\<close>

fun type_name :: "json \<Rightarrow> string" where
  "type_name JNull = ''NoneType''"
| "type_name (JBool b) = ''bool''"
| "type_name (JInt n) = ''int''"
| "type_name (JFloat x) = ''float''"
| "type_name (JStr s) = ''str''"
| "type_name (JArr xs) = ''list''"
| "type_name (JObj kvs) = ''dict''"

text \<open>Truth value testing, as \<open>if v:\<close> and \<open>v or d\<close> apply it.\<close>

fun py_truthy :: "json \<Rightarrow> bool" where
  "py_truthy JNull = False"
| "py_truthy (JBool b) = b"
| "py_truthy (JInt n) = (n \<noteq> 0)"
| "py_truthy (JFloat x) = (x \<noteq> 0)"
| "py_truthy (JStr s) = (s \<noteq> [])"
| "py_truthy (JArr xs) = (xs \<noteq> [])"
| "py_truthy (JObj kvs) = (kvs \<noteq> [])"

fun is_object :: "json \<Rightarrow> bool" where
  "is_object (JObj kvs) = True"
| "is_object v = False"

text \<open>\<open>d.get(key)\<close>: the value, or \<open>None\<close> for a key the dict does not have.\<close>

definition dict_get :: "(string \<times> json) list \<Rightarrow> string \<Rightarrow> json" where
  "dict_get d key = (case map_of d key of None \<Rightarrow> JNull | Some v \<Rightarrow> v)"

text \<open>
  An exception (an instance of a subclass of \<open>Exception\<close>): its class and the text
  \<open>str(e)\<close> that an f-string embeds.
\<close>

datatype py_exception = PyException (exc_class: string) (exc_str: string)

abbreviation quoted :: "string \<Rightarrow> string" where
  "quoted s \<equiv> CHR 0x27 # s @ [CHR 0x27]"

section \<open>Response Decoder\<close>

abbreviation NL :: char where
  "NL \<equiv> CHR 0x0A"

text \<open>
  \<open>re.sub(r'^```(?:json)?\n?', '', raw)\<close>. Without \<open>re.MULTILINE\<close> the anchor matches at
  the start of the text only; each optional part is taken when it is there.
\<close>

definition strip_open_fence :: "string \<Rightarrow> string" where
  "strip_open_fence raw =
     (case drop_prefix ''```'' raw of
        None \<Rightarrow> raw
      | Some r1 \<Rightarrow>
          (let r2 = (case drop_prefix ''json'' r1 of None \<Rightarrow> r1 | Some r \<Rightarrow> r)
           in case drop_prefix [NL] r2 of None \<Rightarrow> r2 | Some r3 \<Rightarrow> r3))"

definition drop_suffix :: "string \<Rightarrow> string \<Rightarrow> string option" where
  "drop_suffix p s = map_option rev (drop_prefix (rev p) (rev s))"

text \<open>
  \<open>re.sub(r'\n?```$', '', raw)\<close>. The anchor \<open>$\<close> matches at the end of the text and
  also just before a newline that ends the text; that newline is not part of the match
  and stays. The leftmost match is the one that includes the optional newline.
\<close>

definition strip_close_fence :: "string \<Rightarrow> string" where
  "strip_close_fence raw =
     (let (body, final_newline) =
            (if raw \<noteq> [] \<and> last raw = NL then (butlast raw, [NL]) else (raw, []))
      in case drop_suffix (NL # ''```'') body of
           Some b \<Rightarrow> b @ final_newline
         | None \<Rightarrow>
             (case drop_suffix ''```'' body of
                Some b \<Rightarrow> b @ final_newline
              | None \<Rightarrow> raw))"

text \<open>
  The three lines that end both \<open>extract_from_image\<close> and \<open>parse_transcription\<close>:
  strip the content, remove the fences, call \<open>json.loads\<close>. \<open>json.loads\<close> belongs to
  Python's standard library and is a parameter here: it returns the decoded value or
  raises.
\<close>

definition decode_reply :: "(string \<Rightarrow> py_exception + json) \<Rightarrow> string \<Rightarrow> py_exception + json" where
  "decode_reply loads content = loads (strip_close_fence (strip_open_fence (py_strip content)))"

section \<open>The inference service\<close>

text \<open>
  What lies outside the repository, for one run: \<open>json.loads\<close>, and for the item at
  position \<open>i\<close> of the item list what happens up to
  \<open>response.choices[0].message.content\<close> in each stage: an exception (the image cannot
  be read, the transport fails or times out, the response has no text), or the content
  of the reply. The parse stage is given the value it was called with.
\<close>

record service =
  json_loads :: "string \<Rightarrow> py_exception + json"
  vision_reply :: "nat \<Rightarrow> string \<Rightarrow> py_exception + string"
  parse_reply :: "nat \<Rightarrow> json \<Rightarrow> py_exception + string"

definition extract_from_image :: "service \<Rightarrow> nat \<Rightarrow> string \<Rightarrow> py_exception + json" where
  "extract_from_image svc i image_path =
     (case vision_reply svc i image_path of
        Inl e \<Rightarrow> Inl e
      | Inr content \<Rightarrow> decode_reply (json_loads svc) content)"

definition parse_transcription :: "service \<Rightarrow> nat \<Rightarrow> json \<Rightarrow> py_exception + json" where
  "parse_transcription svc i transcribed_text =
     (case parse_reply svc i transcribed_text of
        Inl e \<Rightarrow> Inl e
      | Inr content \<Rightarrow> decode_reply (json_loads svc) content)"

section \<open>Item Pipeline\<close>

text \<open>The sentinel results that \<open>process_one\<close> substitutes.\<close>

definition extraction_failed :: "py_exception \<Rightarrow> (string \<times> json) list" where
  "extraction_failed e =
     [(''datamatrix_integer'', JNull),
      (''transcribed_text'', JNull),
      (''transcription_confidence'', JInt 0),
      (''transcription_comments'', JStr (''Extraction failed: '' @ exc_str e))]"

definition parsing_failed :: "py_exception \<Rightarrow> (string \<times> json) list" where
  "parsing_failed e =
     [(''sample_number'', JNull),
      (''date'', JNull),
      (''sampling_event'', JNull),
      (''species'', JNull),
      (''tissue'', JNull),
      (''notes'', JStr []),
      (''parse_confidence'', JInt 0),
      (''parse_comments'', JStr (''Parsing failed: '' @ exc_str e))]"

definition nothing_to_parse :: "(string \<times> json) list" where
  "nothing_to_parse =
     [(''sample_number'', JNull),
      (''date'', JNull),
      (''sampling_event'', JNull),
      (''species'', JNull),
      (''tissue'', JNull),
      (''notes'', JStr []),
      (''parse_confidence'', JInt 0),
      (''parse_comments'', JStr ''No transcribed text to parse.'')]"

text \<open>
  The comparison of the two identifiers. \<open>dm_from_image == filename_integer\<close> compares a
  decoded value with a str: it holds exactly when the value is a str with the same
  characters.
\<close>

definition datamatrix_match :: "json \<Rightarrow> string option \<Rightarrow> bool option" where
  "datamatrix_match dm_from_image filename_integer =
     (case filename_integer of
        None \<Rightarrow> None
      | Some f \<Rightarrow> (if dm_from_image \<noteq> JNull then Some (dm_from_image = JStr f) else None))"

text \<open>
  The dict that \<open>process_one\<close> returns: the three computed entries, then the entries of
  the extraction result, then those of the parse result. An entry of a later dict
  replaces an earlier entry with the same key.
\<close>

type_synonym row = "string \<rightharpoonup> json"

definition record_row ::
  "string \<Rightarrow> string option \<Rightarrow> bool option \<Rightarrow> (string \<times> json) list \<Rightarrow> (string \<times> json) list \<Rightarrow> row" where
  "record_row image_file filename_integer match extracted parsed =
     map_of
       [(''image_file'', JStr image_file),
        (''filename_integer'', (case filename_integer of None \<Rightarrow> JNull | Some f \<Rightarrow> JStr f)),
        (''datamatrix_match'', (case match of None \<Rightarrow> JNull | Some b \<Rightarrow> JBool b))]
     ++ map_of extracted ++ map_of parsed"

text \<open>
  What one run of \<open>process_one\<close> does besides returning: the stage functions it calls,
  in order, and the errors it logs.
\<close>

datatype event =
    ExtractCall nat string
  | ParseCall nat json
  | ErrorLog string

text \<open>
  \<open>process_one\<close> for the item at position \<open>i\<close>. An item is the string \<open>str(path)\<close>.
  Both stage calls stand in a \<open>try\<close> whose handler catches \<open>Exception\<close>; the two
  statements that read the extraction result and build the row stand outside. There
  \<open>extracted.get\<close> raises \<open>AttributeError\<close> when the decoded value is not a dict, and
  \<open>**parsed\<close> raises \<open>TypeError\<close> when the decoded value is not a mapping.
\<close>

definition process_one :: "service \<Rightarrow> nat \<Rightarrow> string \<Rightarrow> event list \<times> (py_exception + row)" where
  "process_one svc i path =
     (let filename_integer = extract_integer_from_filename (path_name path);
          (log1, extracted) =
            (case extract_from_image svc i path of
               Inr v \<Rightarrow> ([ExtractCall i path], v)
             | Inl e \<Rightarrow>
                 ([ExtractCall i path,
                   ErrorLog (''Extraction failed for '' @ path @ '': '' @ exc_str e)],
                  JObj (extraction_failed e)))
      in case extracted of
           JObj ed \<Rightarrow>
             (let transcribed = dict_get ed ''transcribed_text'';
                  (log2, parsed) =
                    (if py_truthy transcribed then
                       (case parse_transcription svc i transcribed of
                          Inr v \<Rightarrow> ([ParseCall i transcribed], v)
                        | Inl e \<Rightarrow>
                            ([ParseCall i transcribed,
                              ErrorLog (''Parsing failed for '' @ path @ '': '' @ exc_str e)],
                             JObj (parsing_failed e)))
                     else ([], JObj nothing_to_parse));
                  dm_from_image = dict_get ed ''datamatrix_integer'';
                  match = datamatrix_match dm_from_image filename_integer
              in case parsed of
                   JObj pd \<Rightarrow> (log1 @ log2, Inr (record_row path filename_integer match ed pd))
                 | _ \<Rightarrow>
                     (log1 @ log2,
                      Inl (PyException ''TypeError''
                             (quoted (type_name parsed) @ '' object is not a mapping''))))
         | _ \<Rightarrow>
             (log1,
              Inl (PyException ''AttributeError''
                     (quoted (type_name extracted) @ '' object has no attribute '' @ quoted ''get''))))"

section \<open>Scheduler\<close>

text \<open>
  The loop over \<open>asyncio.as_completed(tasks)\<close>: the tasks are awaited in the order in
  which they complete, each result is appended to \<open>results\<close>, and the first task that
  raised ends the loop with its exception.
\<close>

fun collect_results :: "(nat \<Rightarrow> py_exception + row) \<Rightarrow> nat list \<Rightarrow> row list \<Rightarrow> py_exception + row list" where
  "collect_results task [] results = Inr results"
| "collect_results task (i # completed) results =
     (case task i of
        Inl e \<Rightarrow> Inl e
      | Inr result \<Rightarrow> collect_results task completed (results @ [result]))"

text \<open>
  \<open>process_all\<close>, given the order in which the tasks complete (positions of
  \<open>image_paths\<close>, each once). \<open>Semaphore(n)\<close> raises \<open>ValueError\<close> for a negative \<open>n\<close>.
  With \<open>n = 0\<close> no task ever passes \<open>async with sem\<close>, so with at least one item the
  call does not return: the result \<open>None\<close>. The model takes every stage call to return
  or raise.
\<close>

definition process_all ::
  "service \<Rightarrow> int \<Rightarrow> nat list \<Rightarrow> string list \<Rightarrow> (py_exception + row list) option" where
  "process_all svc batch_size completed image_paths =
     (if batch_size < 0 then
        Some (Inl (PyException ''ValueError'' ''Semaphore initial value must be >= 0''))
      else if image_paths = [] then Some (Inr [])
      else if batch_size = 0 then None
      else Some (collect_results (\<lambda>i. snd (process_one svc i (image_paths ! i))) completed []))"

definition completion_order :: "nat list \<Rightarrow> nat \<Rightarrow> bool" where
  "completion_order completed n = (distinct completed \<and> set completed = {..<n})"

section \<open>Report sink: writing a row\<close>

definition COLUMNS :: "string list" where
  "COLUMNS =
     [''image_file'', ''filename_integer'', ''datamatrix_integer'', ''datamatrix_match'',
      ''transcribed_text'', ''transcription_confidence'', ''transcription_comments'',
      ''sample_number'', ''date'', ''sampling_event'', ''species'', ''tissue'', ''notes'',
      ''parse_confidence'', ''parse_comments'']"

datatype fill = RED_FILL | YELLOW_FILL

text \<open>
  What \<open>write_spreadsheet\<close> can raise while it handles a row: \<open>ValueError\<close> and
  \<open>IllegalCharacterError\<close> from the cell write, \<open>TypeError\<close> from \<open>min\<close> or \<open><=\<close>.
\<close>

datatype sheet_error = CellValueError | IllegalCharacterError | ComparisonTypeError

text \<open>
  \<open>ws.cell(row=..., column=..., value=v)\<close>. The check is openpyxl's, which is not part
  of the repository (\<open>Cell._bind_value\<close> and \<open>Cell.check_string\<close>): \<open>None\<close>, a bool and a
  number are stored; a list or a dict raises \<open>ValueError\<close>; a str is cut to 32767
  characters and raises \<open>IllegalCharacterError\<close> when what is left has a control
  character other than tab, newline and carriage return.
\<close>

definition illegal_character :: "char \<Rightarrow> bool" where
  "illegal_character c = ((of_char c :: nat) \<in> {0..8} \<union> {11, 12} \<union> {14..31})"

fun cell_value_error :: "json \<Rightarrow> sheet_error option" where
  "cell_value_error (JArr xs) = Some CellValueError"
| "cell_value_error (JObj kvs) = Some CellValueError"
| "cell_value_error (JStr s) =
     (if list_ex illegal_character (take 32767 s) then Some IllegalCharacterError else None)"
| "cell_value_error v = None"

text \<open>
  The inner loop at the head of the row's turn: for each name of \<open>COLUMNS\<close> in order,
  the cell is written with \<open>row.get(name, "")\<close>. The first value that cannot be written
  ends \<open>write_spreadsheet\<close> with its exception.
\<close>

fun write_values :: "row \<Rightarrow> string list \<Rightarrow> sheet_error + unit" where
  "write_values r [] = Inr ()"
| "write_values r (name # names) =
     (case cell_value_error (case r name of None \<Rightarrow> JStr [] | Some v \<Rightarrow> v) of
        Some e \<Rightarrow> Inl e
      | None \<Rightarrow> write_values r names)"

text \<open>\<open>row.get(name)\<close> and \<open>a or b\<close>.\<close>

definition row_get :: "row \<Rightarrow> string \<Rightarrow> json" where
  "row_get r name = (case r name of None \<Rightarrow> JNull | Some v \<Rightarrow> v)"

definition py_or :: "json \<Rightarrow> json \<Rightarrow> json" where
  "py_or a b = (if py_truthy a then a else b)"

text \<open>
  The number a value stands for in \<open>min\<close> and \<open><=\<close>; a bool counts as 0 or 1. For any
  other value one of the two comparisons raises \<open>TypeError\<close>.
\<close>

fun py_number :: "json \<Rightarrow> rat option" where
  "py_number (JInt n) = Some (of_int n)"
| "py_number (JFloat x) = Some x"
| "py_number (JBool b) = Some (if b then 1 else 0)"
| "py_number v = None"

definition min_conf :: "row \<Rightarrow> sheet_error + rat" where
  "min_conf r =
     (let t_conf = py_or (row_get r ''transcription_confidence'') (JInt 10);
          p_conf = py_or (row_get r ''parse_confidence'') (JInt 10)
      in case (py_number t_conf, py_number p_conf) of
           (Some t, Some p) \<Rightarrow> Inr (min t p)
         | _ \<Rightarrow> Inl ComparisonTypeError)"

text \<open>
  The block \<open>Color-code rows by minimum confidence\<close>, which runs once the cells of the
  row are written: the value of \<open>fill\<close>, applied to every cell of the row.
\<close>

definition row_fill :: "row \<Rightarrow> sheet_error + fill option" where
  "row_fill r =
     (case min_conf r of
        Inl e \<Rightarrow> Inl e
      | Inr m \<Rightarrow> Inr (if m \<le> 3 then Some RED_FILL else if m \<le> 6 then Some YELLOW_FILL else None))"

text \<open>
  The two blocks that colour the row, for the cell in the column \<open>name\<close>: after the
  row's fill, the cell of \<open>datamatrix_match\<close> is made red when the value \<open>is False\<close>.
\<close>

definition cell_fill :: "row \<Rightarrow> string \<Rightarrow> sheet_error + fill option" where
  "cell_fill r name =
     (case row_fill r of
        Inl e \<Rightarrow> Inl e
      | Inr f \<Rightarrow>
          Inr (if name = ''datamatrix_match'' \<and> row_get r ''datamatrix_match'' = JBool False
               then Some RED_FILL else f))"

text \<open>
  One turn of the loop over the rows: the cells are written, then coloured. The result
  is the fill of each cell, in the order of \<open>COLUMNS\<close>, or the exception that ends
  \<open>write_spreadsheet\<close> before anything is saved.
\<close>

fun cell_fills :: "row \<Rightarrow> string list \<Rightarrow> sheet_error + fill option list" where
  "cell_fills r [] = Inr []"
| "cell_fills r (name # names) =
     (case cell_fill r name of
        Inl e \<Rightarrow> Inl e
      | Inr f \<Rightarrow> (case cell_fills r names of Inl e \<Rightarrow> Inl e | Inr fs \<Rightarrow> Inr (f # fs)))"

definition write_row :: "row \<Rightarrow> sheet_error + fill option list" where
  "write_row r =
     (case write_values r COLUMNS of
        Inl e \<Rightarrow> Inl e
      | Inr u \<Rightarrow> cell_fills r COLUMNS)"

section \<open>A scripted run\<close>

text \<open>
  The end-to-end scenario of the specification, used for the worked examples: the
  first item succeeds in both stages (confidences 9 and 8, the vision reply wrapped in a
  fence), the vision call of the second item times out, the third item comes back with
  an empty transcription, and the reply for a fourth item is the JSON array \<open>[]\<close>.
\<close>

definition vision_text_a :: string where
  \<open>vision_text_a = ''{"datamatrix_integer": "187", "transcribed_text": "Nanomia 187", "transcription_confidence": 9, "transcription_comments": ""}''\<close>

definition parse_text_a :: string where
  \<open>parse_text_a = ''{"sample_number": "187", "species": "Nanomia bijuga", "parse_confidence": 8, "parse_comments": ""}''\<close>

definition vision_text_c :: string where
  \<open>vision_text_c = ''{"datamatrix_integer": "7", "transcribed_text": "", "transcription_confidence": 2, "transcription_comments": "blank label"}''\<close>

text \<open>
  What \<open>json.loads\<close> returns for the four texts of the scenario. Every other text the
  examples hand to it does not start a JSON value, and is answered as \<open>json.loads\<close>
  answers such a text.
\<close>

definition scenario_loads :: "string \<Rightarrow> py_exception + json" where
  "scenario_loads s =
     (if s = vision_text_a then
        Inr (JObj [(''datamatrix_integer'', JStr ''187''),
                   (''transcribed_text'', JStr ''Nanomia 187''),
                   (''transcription_confidence'', JInt 9),
                   (''transcription_comments'', JStr [])])
      else if s = parse_text_a then
        Inr (JObj [(''sample_number'', JStr ''187''),
                   (''species'', JStr ''Nanomia bijuga''),
                   (''parse_confidence'', JInt 8),
                   (''parse_comments'', JStr [])])
      else if s = vision_text_c then
        Inr (JObj [(''datamatrix_integer'', JStr ''7''),
                   (''transcribed_text'', JStr []),
                   (''transcription_confidence'', JInt 2),
                   (''transcription_comments'', JStr ''blank label'')])
      else if s = ''[]'' then Inr (JArr [])
      else Inl (PyException ''JSONDecodeError'' ''Expecting value: line 1 column 1 (char 0)''))"

definition scenario :: service where
  "scenario =
     \<lparr>json_loads = scenario_loads,
      vision_reply = (\<lambda>i path.
         if i = 0 then Inr (''```json'' @ [NL] @ vision_text_a @ [NL] @ ''```'')
         else if i = 1 then Inl (PyException ''APITimeoutError'' ''Request timed out.'')
         else if i = 2 then Inr vision_text_c
         else Inr ''[]''),
      parse_reply = (\<lambda>i transcribed. Inr parse_text_a)\<rparr>"

definition scenario_items :: "string list" where
  "scenario_items =
     [''vials/DunnLab000187.jpg'', ''vials/DunnLab000188.jpg'', ''vials/vial_007.png'',
      ''vials/DunnLab000190.jpg'']"

text \<open>
  The same run with a parser whose reply is the JSON array \<open>[]\<close>.
\<close>

definition array_parser :: service where
  "array_parser = scenario\<lparr>parse_reply := (\<lambda>i transcribed. Inr ''[]'')\<rparr>"

text \<open>
  A run in which the vision reply has no identifier and carries an entry
  \<open>datamatrix_match\<close> of its own.
\<close>

definition override_text :: string where
  \<open>override_text = ''{"datamatrix_integer": null, "transcribed_text": null, "transcription_confidence": 3, "transcription_comments": "code not readable", "datamatrix_match": false}''\<close>

definition override_result :: "(string \<times> json) list" where
  "override_result =
     [(''datamatrix_integer'', JNull),
      (''transcribed_text'', JNull),
      (''transcription_confidence'', JInt 3),
      (''transcription_comments'', JStr ''code not readable''),
      (''datamatrix_match'', JBool False)]"

definition override_service :: service where
  "override_service =
     \<lparr>json_loads = (\<lambda>s.
         if s = override_text then Inr (JObj override_result)
         else Inl (PyException ''JSONDecodeError'' ''Expecting value: line 1 column 1 (char 0)'')),
      vision_reply = (\<lambda>i path. Inr override_text),
      parse_reply = (\<lambda>i transcribed. Inl (PyException ''APIConnectionError'' ''Connection error.''))\<rparr>"

section \<open>Notions used in the statements\<close>

text \<open>
  The subject contains the vendor pattern: somewhere in it stands the token, in any
  mix of upper and lower case, with a digit right after it.
\<close>

definition vendor_pattern_in :: "string \<Rightarrow> bool" where
  "vendor_pattern_in s =
     (\<exists>pre tok d post. s = pre @ tok @ d # post \<and> map ascii_lower tok = ''dunnlab'' \<and> is_digit d)"

section \<open>Facts about characters and the literal match\<close>

lemma split_sep_absent: "sep \<notin> set s \<Longrightarrow> split_sep sep s = [s]"
  by (induction s) auto

lemma ascii_lower_other:
  "c \<notin> set ''ABCDEFGHIJKLMNOPQRSTUVWXYZ'' \<Longrightarrow> ascii_lower c = c"
proof -
  assume "c \<notin> set ''ABCDEFGHIJKLMNOPQRSTUVWXYZ''"
  then have "map_of (zip ''ABCDEFGHIJKLMNOPQRSTUVWXYZ'' ''abcdefghijklmnopqrstuvwxyz'') c = None"
    by (subst map_of_zip_is_None) simp_all
  then show ?thesis by (simp add: ascii_lower_def)
qed

lemma ascii_lower_upper:
  "c \<in> set ''ABCDEFGHIJKLMNOPQRSTUVWXYZ'' \<Longrightarrow> ascii_lower c \<in> set ''abcdefghijklmnopqrstuvwxyz''"
proof -
  assume "c \<in> set ''ABCDEFGHIJKLMNOPQRSTUVWXYZ''"
  then obtain l where l: "map_of (zip ''ABCDEFGHIJKLMNOPQRSTUVWXYZ'' ''abcdefghijklmnopqrstuvwxyz'') c = Some l"
    using map_of_zip_is_None[of "''ABCDEFGHIJKLMNOPQRSTUVWXYZ''" "''abcdefghijklmnopqrstuvwxyz''" c]
    by (cases "map_of (zip ''ABCDEFGHIJKLMNOPQRSTUVWXYZ'' ''abcdefghijklmnopqrstuvwxyz'') c") simp_all
  then have "l \<in> set ''abcdefghijklmnopqrstuvwxyz''"
    by (meson map_of_SomeD set_zip_rightD)
  with l show ?thesis by (simp only: ascii_lower_def option.case)
qed

lemma is_digit_lower: "is_digit c \<Longrightarrow> ascii_lower c = c"
  by (rule ascii_lower_other) (auto simp: is_digit_def)

lemma lower_is_digit: "is_digit (ascii_lower c) = is_digit c"
proof (cases "c \<in> set ''ABCDEFGHIJKLMNOPQRSTUVWXYZ''")
  case True
  from ascii_lower_upper[OF True] have "\<not> is_digit (ascii_lower c)"
    by (auto simp: is_digit_def)
  moreover from True have "\<not> is_digit c" by (auto simp: is_digit_def)
  ultimately show ?thesis by simp
next
  case False
  then show ?thesis by (simp add: ascii_lower_other)
qed

lemma match_literal_ci_Some:
  "match_literal_ci lit s = Some rest \<longleftrightarrow>
     (\<exists>t. s = t @ rest \<and> map ascii_lower t = map ascii_lower lit)"
proof (induction lit s rule: match_literal_ci.induct)
  case (1 s)
  then show ?case by auto
next
  case (2 p ps)
  then show ?case by auto
next
  case (3 p ps c cs)
  have "(\<exists>t. c # cs = t @ rest \<and> map ascii_lower t = map ascii_lower (p # ps)) \<longleftrightarrow>
        (ascii_lower c = ascii_lower p \<and> (\<exists>t. cs = t @ rest \<and> map ascii_lower t = map ascii_lower ps))"
    (is "?L \<longleftrightarrow> ?R")
  proof
    assume ?L
    then obtain t where t: "c # cs = t @ rest" "map ascii_lower t = map ascii_lower (p # ps)"
      by blast
    then obtain t' where "t = c # t'" by (cases t) auto
    with t show ?R by auto
  next
    assume ?R
    then obtain t where "cs = t @ rest" "map ascii_lower t = map ascii_lower ps"
      and "ascii_lower c = ascii_lower p" by blast
    then have "c # cs = (c # t) @ rest \<and> map ascii_lower (c # t) = map ascii_lower (p # ps)"
      by simp
    then show ?L by blast
  qed
  with 3 show ?case by (cases "ascii_lower c = ascii_lower p") simp_all
qed

lemma token_no_digit:
  assumes "map ascii_lower tok = ''dunnlab''" "c \<in> set tok"
  shows "\<not> is_digit c"
proof
  assume d: "is_digit c"
  from assms have "ascii_lower c \<in> set ''dunnlab''"
    by (metis image_eqI set_map)
  with d show False by (auto simp: is_digit_lower is_digit_def)
qed

lemma token_length: "map ascii_lower tok = ''dunnlab'' \<Longrightarrow> length tok = 7"
proof -
  assume "map ascii_lower tok = ''dunnlab''"
  then have "length (map ascii_lower tok) = length ''dunnlab''" by (rule arg_cong)
  then show ?thesis by simp
qed

lemma lower_DunnLab: "map ascii_lower ''DunnLab'' = ''dunnlab''"
  by (simp add: ascii_lower_def)

lemma match_zeros_digits_Nil: "match_zeros_digits [] = None"
  by (simp add: match_zeros_digits_def)

lemma match_zeros_digits_nondigit: "\<not> is_digit c \<Longrightarrow> match_zeros_digits (c # cs) = None"
  by (auto simp: match_zeros_digits_def is_digit_def)

lemma zero_digit: "is_digit (CHR ''0'')"
  by (simp add: is_digit_def)

lemma match_zeros_digits_digit: "is_digit c \<Longrightarrow> match_zeros_digits (c # cs) \<noteq> None"
  by (cases "c = CHR ''0''") (simp_all add: match_zeros_digits_def Let_def)

lemma match_zeros_digits_None_iff: "match_zeros_digits rest = None \<longleftrightarrow> (rest = [] \<or> \<not> is_digit (hd rest))"
  by (cases rest) (auto simp: match_zeros_digits_Nil match_zeros_digits_nondigit match_zeros_digits_digit)

lemma match_DunnLab_Some:
  "match_literal_ci ''DunnLab'' s = Some rest \<longleftrightarrow>
     (\<exists>tok. s = tok @ rest \<and> map ascii_lower tok = ''dunnlab'')"
  by (simp only: match_literal_ci_Some lower_DunnLab)

lemma match_vendor_here_SomeD:
  assumes "match_vendor_here s = Some g"
  shows "\<exists>tok d post. s = tok @ d # post \<and> map ascii_lower tok = ''dunnlab'' \<and> is_digit d"
proof (cases "match_literal_ci ''DunnLab'' s")
  case None
  with assms show ?thesis by (simp add: match_vendor_here_def)
next
  case (Some rest)
  then have "\<exists>tok. s = tok @ rest \<and> map ascii_lower tok = ''dunnlab''"
    by (simp only: match_DunnLab_Some)
  then obtain tok where tok: "s = tok @ rest" "map ascii_lower tok = ''dunnlab''"
    by (elim exE conjE)
  from assms Some have "match_zeros_digits rest \<noteq> None" by (simp add: match_vendor_here_def)
  then have "rest \<noteq> [] \<and> is_digit (hd rest)" by (simp add: match_zeros_digits_None_iff)
  then obtain d post where "rest = d # post" "is_digit d" by (cases rest) auto
  with tok have "s = tok @ d # post \<and> map ascii_lower tok = ''dunnlab'' \<and> is_digit d"
    by simp
  then show ?thesis by (intro exI)
qed

lemma match_vendor_here_pattern:
  assumes "map ascii_lower tok = ''dunnlab''"
  shows "match_vendor_here (tok @ rest) = match_zeros_digits rest"
proof -
  have "\<exists>t. tok @ rest = t @ rest \<and> map ascii_lower t = ''dunnlab''"
    using assms by (intro exI[of _ tok]) simp
  then have "match_literal_ci ''DunnLab'' (tok @ rest) = Some rest"
    by (simp only: match_DunnLab_Some)
  then show ?thesis by (simp add: match_vendor_here_def)
qed

lemma vendor_pattern_in_Cons: "vendor_pattern_in cs \<Longrightarrow> vendor_pattern_in (c # cs)"
proof -
  assume "vendor_pattern_in cs"
  then obtain pre tok d post where
    h: "cs = pre @ tok @ d # post" "map ascii_lower tok = ''dunnlab''" "is_digit d"
    unfolding vendor_pattern_in_def by (elim exE conjE)
  then have "c # cs = (c # pre) @ tok @ d # post \<and> map ascii_lower tok = ''dunnlab'' \<and> is_digit d"
    by simp
  then show ?thesis unfolding vendor_pattern_in_def by (intro exI)
qed

lemma vendor_pattern_in_here:
  assumes "map ascii_lower tok = ''dunnlab''" "is_digit d"
  shows "vendor_pattern_in (tok @ d # post)"
proof -
  from assms have "tok @ d # post = [] @ tok @ d # post \<and> map ascii_lower tok = ''dunnlab'' \<and> is_digit d"
    by simp
  then show ?thesis unfolding vendor_pattern_in_def by (intro exI)
qed

lemma search_vendor_Some_pattern: "search_vendor s = Some g \<Longrightarrow> vendor_pattern_in s"
proof (induction s)
  case Nil
  then show ?case by simp
next
  case (Cons c cs)
  show ?case
  proof (cases "match_vendor_here (c # cs)")
    case None
    with Cons show ?thesis by (simp add: vendor_pattern_in_Cons)
  next
    case (Some g')
    from match_vendor_here_SomeD[OF Some] obtain tok d post where
      "c # cs = tok @ d # post" "map ascii_lower tok = ''dunnlab''" "is_digit d"
      by (elim exE conjE)
    then show ?thesis using vendor_pattern_in_here by simp
  qed
qed

lemma pattern_search_vendor: "vendor_pattern_in s \<Longrightarrow> search_vendor s \<noteq> None"
proof (induction s)
  case Nil
  then show ?case by (simp add: vendor_pattern_in_def)
next
  case (Cons c cs)
  from Cons.prems obtain pre tok d post where
    h: "c # cs = pre @ tok @ d # post" "map ascii_lower tok = ''dunnlab''" "is_digit d"
    unfolding vendor_pattern_in_def by (elim exE conjE)
  show ?case
  proof (cases pre)
    case Nil
    with h have "match_vendor_here (c # cs) = match_zeros_digits (d # post)"
      by (simp add: match_vendor_here_pattern)
    with h(3) show ?thesis using match_zeros_digits_digit[of d post]
      by (cases "match_zeros_digits (d # post)") simp_all
  next
    case (Cons x pre')
    with h have "cs = pre' @ tok @ d # post \<and> map ascii_lower tok = ''dunnlab'' \<and> is_digit d" by simp
    then have "vendor_pattern_in cs" unfolding vendor_pattern_in_def by (intro exI)
    with Cons.IH show ?thesis by (cases "match_vendor_here (c # cs)") simp_all
  qed
qed

lemma search_vendor_None_iff: "search_vendor s = None \<longleftrightarrow> \<not> vendor_pattern_in s"
proof (cases "search_vendor s")
  case None
  with pattern_search_vendor[of s] show ?thesis by auto
next
  case (Some g)
  with search_vendor_Some_pattern[of s g] show ?thesis by simp
qed

lemma nth_in_middle:
  "length xs \<le> n \<Longrightarrow> n < length xs + length ys \<Longrightarrow> (xs @ ys @ zs) ! n \<in> set ys"
  by (auto simp: nth_append)

lemma append_eq_prefix:
  "xs @ ys = us @ vs \<Longrightarrow> length us \<le> length xs \<Longrightarrow> \<exists>q. xs = us @ q"
  by (auto simp: append_eq_append_conv2)

lemma match_vendor_here_before_token:
  assumes tok: "map ascii_lower tok = ''dunnlab''"
    and nopat: "\<not> vendor_pattern_in (c # p)"
  shows "match_vendor_here (c # p @ tok @ rest) = None"
proof (rule ccontr)
  assume "match_vendor_here (c # p @ tok @ rest) \<noteq> None"
  then obtain g where "match_vendor_here (c # p @ tok @ rest) = Some g" by auto
  from match_vendor_here_SomeD[OF this] obtain tok' d post where
    h: "c # p @ tok @ rest = tok' @ d # post" "map ascii_lower tok' = ''dunnlab''" "is_digit d"
    by (elim exE conjE)
  have l': "length tok' = 7" using h(2) by (rule token_length)
  have l: "length tok = 7" using tok by (rule token_length)
  have "(tok' @ d # post) ! 7 = d"
    using nth_append_length[of tok' d post] l' by simp
  with h(1) have d: "(c # p @ tok @ rest) ! 7 = d" by simp
  show False
  proof (cases "length (c # p) \<le> 7")
    case True
    then have "((c # p) @ tok @ rest) ! 7 \<in> set tok"
      using l by (intro nth_in_middle) simp_all
    with d have "d \<in> set tok" by simp
    with token_no_digit[OF tok] h(3) show False by simp
  next
    case False
    then have len: "length (tok' @ [d]) \<le> length (c # p)" using l' by simp
    have "(c # p) @ (tok @ rest) = (tok' @ [d]) @ post" using h(1) by simp
    from append_eq_prefix[OF this len] obtain q where "c # p = (tok' @ [d]) @ q" ..
    then have "c # p = tok' @ d # q" by simp
    then have "vendor_pattern_in (c # p)"
      using vendor_pattern_in_here[OF h(2) h(3), of q] by simp
    with nopat show False by simp
  qed
qed

lemma search_vendor_first_pattern:
  assumes tok: "map ascii_lower tok = ''dunnlab''"
    and g: "match_zeros_digits rest = Some g"
  shows "\<not> vendor_pattern_in pre \<Longrightarrow> search_vendor (pre @ tok @ rest) = Some g"
proof (induction pre)
  case Nil
  from tok have "tok \<noteq> []" by auto
  then obtain c cs where c: "tok = c # cs" by (cases tok) auto
  have "match_vendor_here (tok @ rest) = Some g"
    using tok g by (simp add: match_vendor_here_pattern)
  then show ?case using c by simp
next
  case (Cons c p)
  then have "\<not> vendor_pattern_in p" using vendor_pattern_in_Cons by blast
  with Cons.IH have "search_vendor (p @ tok @ rest) = Some g" by simp
  moreover have "match_vendor_here (c # p @ tok @ rest) = None"
    using tok Cons.prems by (rule match_vendor_here_before_token)
  ultimately show ?case by simp
qed

lemma match_zeros_digits_run:
  assumes "set zs \<subseteq> {CHR ''0''}" "ds \<noteq> []" "\<forall>c\<in>set ds. is_digit c" "hd ds \<noteq> CHR ''0''"
    "post = [] \<or> \<not> is_digit (hd post)"
  shows "match_zeros_digits (zs @ ds @ post) = Some ds"
proof -
  have z: "\<forall>c\<in>set zs. c = CHR ''0''" using assms(1) by auto
  obtain x xs where ds: "ds = x # xs" using assms(2) by (cases ds) auto
  have tw: "takeWhile (\<lambda>c. c = CHR ''0'') (zs @ ds @ post) = zs"
    using z ds assms(4) by simp
  have dw: "dropWhile (\<lambda>c. c = CHR ''0'') (zs @ ds @ post) = ds @ post"
    using z ds assms(4) by simp
  have td: "takeWhile is_digit (ds @ post) = ds"
  proof (cases post)
    case Nil
    then show ?thesis using assms(3) by simp
  next
    case (Cons y ys)
    with assms(5) have "\<not> is_digit y" by simp
    with Cons assms(3) show ?thesis by simp
  qed
  show ?thesis using assms(2) by (simp add: match_zeros_digits_def Let_def tw dw td)
qed

lemma match_zeros_digits_zeros:
  assumes "zs \<noteq> []" "set zs \<subseteq> {CHR ''0''}" "post = [] \<or> \<not> is_digit (hd post)"
  shows "match_zeros_digits (zs @ post) = Some ''0''"
proof -
  have z: "\<forall>c\<in>set zs. c = CHR ''0''" using assms(2) by auto
  show ?thesis
  proof (cases post)
    case Nil
    have tw: "takeWhile (\<lambda>c. c = CHR ''0'') zs = zs"
      and dw: "dropWhile (\<lambda>c. c = CHR ''0'') zs = []"
      using z by simp_all
    show ?thesis using Nil assms(1) by (simp add: match_zeros_digits_def Let_def tw dw)
  next
    case (Cons y ys)
    with assms(3) have y: "\<not> is_digit y" by simp
    with zero_digit have y0: "y \<noteq> CHR ''0''" by auto
    have tw: "takeWhile (\<lambda>c. c = CHR ''0'') (zs @ y # ys) = zs"
      using z y0 by simp
    have dw: "dropWhile (\<lambda>c. c = CHR ''0'') (zs @ y # ys) = y # ys"
      using z y0 by simp
    show ?thesis using Cons assms(1) y by (simp add: match_zeros_digits_def Let_def tw dw)
  qed
qed

section \<open>Facts about the two tiers and about paths\<close>

lemma search_digits_run:
  assumes "\<forall>c\<in>set pre. \<not> is_digit c" "ds \<noteq> []" "\<forall>c\<in>set ds. is_digit c"
    "post = [] \<or> \<not> is_digit (hd post)"
  shows "search_digits (pre @ ds @ post) = Some ds"
proof -
  obtain x xs where ds: "ds = x # xs" using assms(2) by (cases ds) auto
  with assms(3) have x: "is_digit x" by simp
  have dw: "dropWhile (\<lambda>c. \<not> is_digit c) (pre @ ds @ post) = ds @ post"
    using assms(1) ds x by (simp add: dropWhile_append3)
  have tw: "takeWhile is_digit (ds @ post) = ds"
  proof (cases post)
    case Nil
    then show ?thesis using assms(3) by simp
  next
    case (Cons y ys)
    with assms(4) have "\<not> is_digit y" by simp
    with Cons assms(3) show ?thesis by simp
  qed
  show ?thesis using assms(2) by (simp add: search_digits_def Let_def dw tw)
qed

lemma search_digits_None_iff: "search_digits s = None \<longleftrightarrow> (\<forall>c\<in>set s. \<not> is_digit c)"
  by (auto simp: search_digits_def Let_def dropWhile_eq_Nil_conv)

lemma vendor_pattern_has_digit: "vendor_pattern_in s \<Longrightarrow> \<exists>c\<in>set s. is_digit c"
  unfolding vendor_pattern_in_def by auto

lemma extract_None_iff:
  "extract_integer_from_filename name = None \<longleftrightarrow> (\<forall>c\<in>set (path_stem name). \<not> is_digit c)"
proof -
  have "extract_integer_from_filename name = None \<longleftrightarrow>
        search_vendor (path_stem name) = None \<and> search_digits (path_stem name) = None"
    by (simp add: extract_integer_from_filename_def Let_def split: option.splits)
  also have "\<dots> \<longleftrightarrow> (\<forall>c\<in>set (path_stem name). \<not> is_digit c)"
    using vendor_pattern_has_digit[of "path_stem name"]
    by (auto simp: search_vendor_None_iff search_digits_None_iff)
  finally show ?thesis .
qed

lemma path_name_plain:
  assumes "CHR ''/'' \<notin> set n" "n \<noteq> []" "n \<noteq> ''.''"
  shows "path_name n = n"
  using assms by (simp add: path_name_def split_sep_absent)

lemma path_stem_suffix: "path_stem n @ path_suffix n = path_name n"
  by (simp add: path_stem_def path_suffix_def Let_def)

lemma extension_no_digit:
  assumes "map ascii_lower e \<in> EXTENSIONS" "c \<in> set e"
  shows "\<not> is_digit c"
proof -
  from assms(2) have "ascii_lower c \<in> set (map ascii_lower e)" by simp
  with assms(1) have "ascii_lower c \<in> set ''.pngjetif''"
    by (auto simp: EXTENSIONS_def)
  then have "\<not> is_digit (ascii_lower c)" by (auto simp: is_digit_def)
  then show ?thesis by (simp add: lower_is_digit)
qed

lemma image_name_plain:
  assumes "CHR ''/'' \<notin> set n" "is_image n"
  shows "path_name n = n"
proof -
  have "path_suffix n \<noteq> []" using assms(2) by (auto simp: is_image_def EXTENSIONS_def)
  then have "path_name n \<noteq> []" by (auto simp: path_suffix_def Let_def split: if_splits)
  then have "n \<noteq> [] \<and> n \<noteq> ''.''" by (auto simp: path_name_def)
  with assms(1) show ?thesis by (simp add: path_name_plain)
qed

lemma image_name_digits:
  assumes "CHR ''/'' \<notin> set n" "is_image n"
  shows "(\<forall>c\<in>set (path_stem n). \<not> is_digit c) \<longleftrightarrow> (\<forall>c\<in>set n. \<not> is_digit c)"
proof -
  have "set n = set (path_stem n) \<union> set (path_suffix n)"
    using path_stem_suffix[of n] image_name_plain[OF assms] by (metis set_append)
  moreover have "\<forall>c\<in>set (path_suffix n). \<not> is_digit c"
    using assms(2) extension_no_digit unfolding is_image_def by blast
  ultimately show ?thesis by auto
qed

lemma vendor_tier_value:
  assumes "path_stem name = pre @ tok @ rest" "\<not> vendor_pattern_in pre"
    "map ascii_lower tok = ''dunnlab''" "match_zeros_digits rest = Some g"
  shows "extract_integer_from_filename name = Some g"
  using search_vendor_first_pattern[OF assms(3) assms(4) assms(2)] assms(1)
  by (simp add: extract_integer_from_filename_def)

lemma fallback_tier_value:
  assumes "\<not> vendor_pattern_in (path_stem name)" "path_stem name = pre @ ds @ post"
    "\<forall>c\<in>set pre. \<not> is_digit c" "ds \<noteq> []" "\<forall>c\<in>set ds. is_digit c"
    "post = [] \<or> \<not> is_digit (hd post)"
  shows "extract_integer_from_filename name = Some ds"
proof -
  have "search_vendor (path_stem name) = None"
    using assms(1) by (simp add: search_vendor_None_iff)
  moreover have "search_digits (path_stem name) = Some ds"
    unfolding assms(2) using assms(3-6) by (rule search_digits_run)
  ultimately show ?thesis by (simp add: extract_integer_from_filename_def)
qed

lemma no_vendor_pattern_Nil: "\<not> vendor_pattern_in []"
  by (simp add: vendor_pattern_in_def)

lemma is_image_nocode: "is_image ''nocode.png''"
  by (simp add: is_image_def path_suffix_def path_name_def rfind_def EXTENSIONS_def ascii_lower_def)

lemma image_name_split:
  assumes "CHR ''/'' \<notin> set n" "is_image n"
  shows "n = path_stem n @ path_suffix n" "\<forall>c\<in>set (path_suffix n). \<not> is_digit c"
proof -
  show "n = path_stem n @ path_suffix n"
    using path_stem_suffix[of n] image_name_plain[OF assms] by simp
  show "\<forall>c\<in>set (path_suffix n). \<not> is_digit c"
    using assms(2) extension_no_digit unfolding is_image_def by blast
qed

lemma run_inside_stem:
  assumes n: "n = stem @ suf" "\<forall>c\<in>set suf. \<not> is_digit c"
    and d: "n = a @ post" "a \<noteq> []" "is_digit (last a)"
  shows "\<exists>post'. stem = a @ post' \<and> post = post' @ suf"
proof -
  from n(1) d(1) have "a @ post = stem @ suf" by simp
  then obtain us where us: "(a = stem @ us \<and> us @ post = suf) \<or> (a @ us = stem \<and> post = us @ suf)"
    by (auto simp: append_eq_append_conv2)
  show ?thesis
  proof (cases "us = []")
    case True
    with us have "stem = a @ [] \<and> post = [] @ suf" by auto
    then show ?thesis by blast
  next
    case False
    show ?thesis
    proof (cases "a = stem @ us \<and> us @ post = suf")
      case True
      with False have "last a = last us" by simp
      moreover have "last us \<in> set suf" using True False by auto
      ultimately show ?thesis using n(2) d(3) by auto
    next
      case False
      with us have "stem = a @ us \<and> post = us @ suf" by auto
      then show ?thesis by blast
    qed
  qed
qed

lemma vendor_pattern_in_prefix: "vendor_pattern_in s \<Longrightarrow> vendor_pattern_in (s @ t)"
proof -
  assume "vendor_pattern_in s"
  then obtain pre tok d post where
    h: "s = pre @ tok @ d # post" "map ascii_lower tok = ''dunnlab''" "is_digit d"
    unfolding vendor_pattern_in_def by (elim exE conjE)
  then have "s @ t = pre @ tok @ d # (post @ t) \<and> map ascii_lower tok = ''dunnlab'' \<and> is_digit d"
    by simp
  then show ?thesis unfolding vendor_pattern_in_def by (intro exI)
qed

lemma hd_post_stem:
  assumes "post = post' @ suf" "post = [] \<or> \<not> is_digit (hd post)"
  shows "post' = [] \<or> \<not> is_digit (hd post')"
  using assms by (cases post') auto

lemma item_vendor_tier_run:
  assumes item: "CHR ''/'' \<notin> set name" "is_image name"
    and dec: "name = pre @ tok @ zs @ ds @ post" "\<not> vendor_pattern_in pre"
      "map ascii_lower tok = ''dunnlab''" "set zs \<subseteq> {CHR ''0''}" "ds \<noteq> []"
      "\<forall>c\<in>set ds. is_digit c" "hd ds \<noteq> CHR ''0''" "post = [] \<or> \<not> is_digit (hd post)"
  shows "extract_integer_from_filename name = Some ds"
proof -
  note sp = image_name_split[OF item]
  have "name = (pre @ tok @ zs @ ds) @ post" using dec(1) by simp
  moreover have "pre @ tok @ zs @ ds \<noteq> []" using dec(5) by simp
  moreover have "is_digit (last (pre @ tok @ zs @ ds))" using dec(5,6) by simp
  ultimately obtain post' where p: "path_stem name = (pre @ tok @ zs @ ds) @ post'"
      "post = post' @ path_suffix name"
    using run_inside_stem[OF sp] by blast
  have "match_zeros_digits (zs @ ds @ post') = Some ds"
    using dec(4-7) hd_post_stem[OF p(2) dec(8)] by (rule match_zeros_digits_run)
  then show ?thesis
    using p(1) dec(2,3) by (intro vendor_tier_value[of name pre tok "zs @ ds @ post'"]) simp_all
qed

lemma item_vendor_tier_zeros:
  assumes item: "CHR ''/'' \<notin> set name" "is_image name"
    and dec: "name = pre @ tok @ zs @ post" "\<not> vendor_pattern_in pre"
      "map ascii_lower tok = ''dunnlab''" "zs \<noteq> []" "set zs \<subseteq> {CHR ''0''}"
      "post = [] \<or> \<not> is_digit (hd post)"
  shows "extract_integer_from_filename name = Some ''0''"
proof -
  note sp = image_name_split[OF item]
  have "last zs \<in> set zs" using dec(4) by simp
  with dec(5) have "last zs \<in> {CHR ''0''}" by (rule subsetD)
  then have lz: "is_digit (last zs)" by (simp add: zero_digit)
  have "name = (pre @ tok @ zs) @ post" using dec(1) by simp
  moreover have "pre @ tok @ zs \<noteq> []" using dec(4) by simp
  moreover have "is_digit (last (pre @ tok @ zs))" using dec(4) lz by simp
  ultimately obtain post' where p: "path_stem name = (pre @ tok @ zs) @ post'"
      "post = post' @ path_suffix name"
    using run_inside_stem[OF sp] by blast
  have "match_zeros_digits (zs @ post') = Some ''0''"
    using dec(4,5) hd_post_stem[OF p(2) dec(6)] by (rule match_zeros_digits_zeros)
  then show ?thesis
    using p(1) dec(2,3) by (intro vendor_tier_value[of name pre tok "zs @ post'"]) simp_all
qed

lemma item_fallback_tier:
  assumes item: "CHR ''/'' \<notin> set name" "is_image name"
    and dec: "\<not> vendor_pattern_in name" "name = pre @ ds @ post"
      "\<forall>c\<in>set pre. \<not> is_digit c" "ds \<noteq> []" "\<forall>c\<in>set ds. is_digit c"
      "post = [] \<or> \<not> is_digit (hd post)"
  shows "extract_integer_from_filename name = Some ds"
proof -
  note sp = image_name_split[OF item]
  have "name = (pre @ ds) @ post" using dec(2) by simp
  moreover have "pre @ ds \<noteq> []" using dec(4) by simp
  moreover have "is_digit (last (pre @ ds))" using dec(4,5) by simp
  ultimately obtain post' where p: "path_stem name = (pre @ ds) @ post'"
      "post = post' @ path_suffix name"
    using run_inside_stem[OF sp] by blast
  have "\<not> vendor_pattern_in (path_stem name)"
    using dec(1) vendor_pattern_in_prefix[of "path_stem name" "path_suffix name"] sp(1) by auto
  moreover have "path_stem name = pre @ ds @ post'" using p(1) by simp
  ultimately show ?thesis
    using dec(3,4,5) hd_post_stem[OF p(2) dec(6)] by (rule fallback_tier_value)
qed

lemma is_image_examples:
  "is_image ''DunnLab000187.jpg''" "is_image ''vial_42_after.png''"
  by (simp_all add: is_image_def path_suffix_def path_name_def rfind_def EXTENSIONS_def ascii_lower_def)

lemma no_vendor_vial_42_after_png: "\<not> vendor_pattern_in ''vial_42_after.png''"
  unfolding search_vendor_None_iff[symmetric]
  by (simp add: match_vendor_here_def ascii_lower_def)

section \<open>Facts about the match, the row and the decoder\<close>



lemma datamatrix_match_None:
  "datamatrix_match dm fi = None \<longleftrightarrow> (fi = None \<or> dm = JNull)"
  by (cases fi) (auto simp: datamatrix_match_def)

lemma map_of_absent: "k \<notin> fst ` set kvs \<Longrightarrow> map_of kvs k = None"
  by (simp add: map_of_eq_None_iff)

lemma record_row_match:
  assumes "''datamatrix_match'' \<notin> fst ` set extracted" "''datamatrix_match'' \<notin> fst ` set parsed"
  shows "record_row image_file fi m extracted parsed ''datamatrix_match'' =
           Some (case m of None \<Rightarrow> JNull | Some b \<Rightarrow> JBool b)"
  using assms by (simp add: record_row_def map_add_def map_of_absent)

lemma drop_prefix_append: "drop_prefix p (p @ s) = Some s"
  by (induction p) auto

lemma drop_prefix_Some_iff: "drop_prefix p s = Some r \<longleftrightarrow> s = p @ r"
  by (induction p s rule: drop_prefix.induct) auto

lemma drop_prefix_None_iff: "drop_prefix p s = None \<longleftrightarrow> \<not> prefix p s"
proof (cases "drop_prefix p s")
  case None
  then have "\<not> prefix p s"
    using drop_prefix_Some_iff[of p s] by (auto simp: prefix_def)
  with None show ?thesis by simp
next
  case (Some r)
  then show ?thesis by (simp add: drop_prefix_Some_iff)
qed

lemma drop_suffix_append: "drop_suffix p (s @ p) = Some s"
  by (simp add: drop_suffix_def drop_prefix_append)

lemma drop_suffix_None_iff: "drop_suffix p s = None \<longleftrightarrow> \<not> suffix p s"
  by (simp add: drop_suffix_def drop_prefix_None_iff suffix_to_prefix)

lemma strip_open_fence_unfenced: "\<not> prefix ''```'' s \<Longrightarrow> strip_open_fence s = s"
  using drop_prefix_None_iff[of "''```''" s] by (simp add: strip_open_fence_def)

lemma strip_open_fence_fenced:
  assumes "tag \<in> {[], ''json''}" "nl \<in> {[], [NL]}"
  shows "strip_open_fence (''```'' @ tag @ nl @ CHR ''{'' # rest) = CHR ''{'' # rest"
  using assms by (auto simp: strip_open_fence_def)

lemma strip_close_fence_unfenced:
  assumes "\<not> suffix ''```'' s" "s = [] \<or> last s \<noteq> NL"
  shows "strip_close_fence s = s"
proof -
  have "\<not> suffix (NL # ''```'') s"
  proof
    assume "suffix (NL # ''```'') s"
    then have "suffix ''```'' s" by (rule suffix_ConsD)
    with assms(1) show False by simp
  qed
  then have d1: "drop_suffix (NL # ''```'') s = None"
    by (simp add: drop_suffix_None_iff)
  have d2: "drop_suffix ''```'' s = None"
    using assms(1) by (simp add: drop_suffix_None_iff)
  show ?thesis
  proof (cases "s = []")
    case True
    then show ?thesis using d1 d2 by (simp add: strip_close_fence_def)
  next
    case False
    with assms(2) have "last s \<noteq> NL" by simp
    then show ?thesis by (simp add: strip_close_fence_def d1 d2)
  qed
qed

lemma strip_close_fence_fenced:
  assumes "inner \<noteq> []" "last inner = CHR ''}''" "nl \<in> {[], [NL]}"
  shows "strip_close_fence (inner @ nl @ ''```'') = inner"
proof -
  have nolast: "\<not> ((inner @ nl @ ''```'') \<noteq> [] \<and> last (inner @ nl @ ''```'') = NL)"
    by simp
  show ?thesis
  proof (cases "nl = []")
    case True
    have "\<not> suffix (NL # ''```'') (inner @ ''```'')"
    proof
      assume "suffix (NL # ''```'') (inner @ ''```'')"
      then have "suffix ([NL] @ ''```'') (inner @ ''```'')" by simp
      then have "suffix [NL] inner" by (simp only: same_suffix_suffix)
      then have "last inner = NL" using assms(1) by (auto simp: suffix_def)
      with assms(2) show False by simp
    qed
    then have d1: "drop_suffix (NL # ''```'') (inner @ ''```'') = None"
      by (simp add: drop_suffix_None_iff)
    have d2: "drop_suffix ''```'' (inner @ ''```'') = Some inner"
      by (rule drop_suffix_append)
    show ?thesis using True nolast by (simp add: strip_close_fence_def d1 d2)
  next
    case False
    with assms(3) have nl: "nl = [NL]" by simp
    have "drop_suffix ([NL] @ ''```'') (inner @ [NL] @ ''```'') = Some inner"
      using drop_suffix_append[of "[NL] @ ''```''" inner] by simp
    then have d1: "drop_suffix (NL # ''```'') (inner @ NL # ''```'') = Some inner" by simp
    show ?thesis using nl nolast by (simp add: strip_close_fence_def d1)
  qed
qed

lemma py_strip_padded:
  assumes "list_all is_space ws1" "list_all is_space ws2" "s \<noteq> []"
    "\<not> is_space (hd s)" "\<not> is_space (last s)"
  shows "py_strip (ws1 @ s @ ws2) = s"
proof -
  obtain x xs where s: "s = x # xs" using assms(3) by (cases s) auto
  have a: "dropWhile is_space (ws1 @ s @ ws2) = s @ ws2"
    using assms(1,4) s by (simp add: list_all_iff)
  have "rev s \<noteq> []" using assms(3) by simp
  then obtain y ys where r: "rev s = y # ys" by (cases "rev s") auto
  then have "y = last s" using assms(3) by (metis last_rev list.sel(1) rev_rev_ident hd_rev)
  with assms(5) have y: "\<not> is_space y" by simp
  have "dropWhile is_space (rev ws2 @ rev s) = dropWhile is_space (rev s)"
    using assms(2) by (intro dropWhile_append2) (simp add: list_all_iff)
  then have b: "dropWhile is_space (rev ws2 @ rev s) = rev s"
    using r y by simp
  show ?thesis by (simp add: py_strip_def a b)
qed

lemma py_strip_id:
  assumes "s \<noteq> []" "\<not> is_space (hd s)" "\<not> is_space (last s)"
  shows "py_strip s = s"
  using py_strip_padded[of "[]" "[]" s] assms by simp


lemma brace_not_space: "\<not> is_space (CHR ''{'')" "\<not> is_space (CHR ''}'')" "\<not> is_space (CHR 0x60)"
  "is_space NL"
  by (simp_all add: is_space_def)

lemma decode_reply_record:
  assumes "inner \<noteq> []" "hd inner = CHR ''{''" "last inner = CHR ''}''"
  shows "decode_reply loads inner = loads inner"
proof -
  have st: "py_strip inner = inner"
    using assms by (intro py_strip_id) (simp_all add: brace_not_space)
  obtain rest where inner: "inner = CHR ''{'' # rest" using assms(1,2) by (cases inner) auto
  have "\<not> prefix ''```'' inner" using inner by simp
  then have o: "strip_open_fence inner = inner" by (rule strip_open_fence_unfenced)
  have "\<not> suffix ''```'' inner"
  proof
    assume "suffix ''```'' inner"
    then obtain u where "inner = u @ ''```''" by (auto simp: suffix_def)
    then have "last inner = CHR 0x60" by simp
    with assms(3) show False by simp
  qed
  moreover have "inner = [] \<or> last inner \<noteq> NL" using assms(3) by simp
  ultimately have c: "strip_close_fence inner = inner" by (rule strip_close_fence_unfenced)
  show ?thesis by (simp add: decode_reply_def st o c)
qed

lemma decode_reply_fenced_record:
  assumes "inner \<noteq> []" "hd inner = CHR ''{''" "last inner = CHR ''}''"
    "tag \<in> {[], ''json''}" "nl1 \<in> {[], [NL]}" "nl2 \<in> {[], [NL]}"
    "list_all is_space ws1" "list_all is_space ws2"
  shows "decode_reply loads (ws1 @ ''```'' @ tag @ nl1 @ inner @ nl2 @ ''```'' @ ws2) = loads inner"
proof -
  let ?f = "''```'' @ tag @ nl1 @ inner @ nl2 @ ''```''"
  have "py_strip (ws1 @ ?f @ ws2) = ?f"
    using assms(7,8) by (intro py_strip_padded) (simp_all add: brace_not_space)
  then have st: "py_strip (ws1 @ ''```'' @ tag @ nl1 @ inner @ nl2 @ ''```'' @ ws2) = ?f" by simp
  obtain rest where inner: "inner = CHR ''{'' # rest" using assms(1,2) by (cases inner) auto
  have "strip_open_fence (''```'' @ tag @ nl1 @ CHR ''{'' # (rest @ nl2 @ ''```'')) = CHR ''{'' # (rest @ nl2 @ ''```'')"
    using assms(4,5) by (rule strip_open_fence_fenced)
  then have o: "strip_open_fence ?f = inner @ nl2 @ ''```''" using inner by simp
  have c: "strip_close_fence (inner @ nl2 @ ''```'') = inner"
    using assms(1,3,6) by (rule strip_close_fence_fenced)
  show ?thesis by (simp only: decode_reply_def st o c)
qed

section \<open>Facts about the item pipeline\<close>

lemma datamatrix_match_JNull: "datamatrix_match JNull fi = None"
  by (simp add: datamatrix_match_None)

lemma extraction_failed_get:
  "dict_get (extraction_failed e) ''transcribed_text'' = JNull"
  "dict_get (extraction_failed e) ''datamatrix_integer'' = JNull"
  by (simp_all add: dict_get_def extraction_failed_def)

lemma process_one_extraction_failed:
  assumes "extract_from_image svc i path = Inl e"
  shows "process_one svc i path =
           ([ExtractCall i path, ErrorLog (''Extraction failed for '' @ path @ '': '' @ exc_str e)],
            Inr (record_row path (extract_integer_from_filename (path_name path)) None
                   (extraction_failed e) nothing_to_parse))"
  using assms
  by (simp add: process_one_def Let_def extraction_failed_get datamatrix_match_JNull)

lemma process_one_nothing_to_parse:
  assumes "extract_from_image svc i path = Inr (JObj ed)"
    "\<not> py_truthy (dict_get ed ''transcribed_text'')"
  shows "process_one svc i path =
           ([ExtractCall i path],
            Inr (record_row path (extract_integer_from_filename (path_name path))
                   (datamatrix_match (dict_get ed ''datamatrix_integer'')
                      (extract_integer_from_filename (path_name path)))
                   ed nothing_to_parse))"
  using assms by (simp add: process_one_def Let_def)

lemma process_one_not_object:
  assumes "extract_from_image svc i path = Inr v" "\<not> is_object v"
  shows "process_one svc i path =
           ([ExtractCall i path],
            Inl (PyException ''AttributeError''
                   (quoted (type_name v) @ '' object has no attribute '' @ quoted ''get'')))"
  using assms by (cases v) (simp_all add: process_one_def Let_def)

lemma process_one_parsed_not_object:
  assumes "extract_from_image svc i path = Inr (JObj ed)"
    "py_truthy (dict_get ed ''transcribed_text'')"
    "parse_transcription svc i (dict_get ed ''transcribed_text'') = Inr v" "\<not> is_object v"
  shows "process_one svc i path =
           ([ExtractCall i path, ParseCall i (dict_get ed ''transcribed_text'')],
            Inl (PyException ''TypeError'' (quoted (type_name v) @ '' object is not a mapping'')))"
  using assms by (cases v) (simp_all add: process_one_def Let_def)

lemma is_objectE: "is_object v \<Longrightarrow> \<exists>kvs. v = JObj kvs"
  by (cases v) simp_all

lemma process_one_objects:
  assumes "\<And>v. extract_from_image svc i path = Inr v \<Longrightarrow> is_object v"
    "\<And>t v. parse_transcription svc i t = Inr v \<Longrightarrow> is_object v"
  shows "\<exists>evs r. process_one svc i path = (evs, Inr r)"
proof (cases "extract_from_image svc i path")
  case (Inl e)
  then show ?thesis by (simp add: process_one_extraction_failed)
next
  case (Inr v)
  from is_objectE[OF assms(1)[OF Inr]] obtain ed where v: "v = JObj ed" ..
  show ?thesis
  proof (cases "py_truthy (dict_get ed ''transcribed_text'')")
    case False
    with Inr v show ?thesis by (simp add: process_one_nothing_to_parse)
  next
    case True
    show ?thesis
    proof (cases "parse_transcription svc i (dict_get ed ''transcribed_text'')")
      case (Inl e)
      with Inr v True show ?thesis
        by (simp add: process_one_def Let_def parsing_failed_def)
    next
      case (Inr w)
      from is_objectE[OF assms(2)[OF Inr]] obtain pd where "w = JObj pd" ..
      with Inr \<open>extract_from_image svc i path = Inr v\<close> v True show ?thesis
        by (simp add: process_one_def Let_def)
    qed
  qed
qed

lemma record_row_parsed:
  "map_of parsed k = Some v \<Longrightarrow> record_row p fi m extracted parsed k = Some v"
  by (simp add: record_row_def)

lemma record_row_extracted:
  "map_of parsed k = None \<Longrightarrow> map_of extracted k = Some v \<Longrightarrow>
   record_row p fi m extracted parsed k = Some v"
  by (simp add: record_row_def map_add_def)

lemma nothing_to_parse_entries:
  "map_of nothing_to_parse ''parse_confidence'' = Some (JInt 0)"
  "map_of nothing_to_parse ''parse_comments'' = Some (JStr ''No transcribed text to parse.'')"
  "map_of nothing_to_parse ''transcription_confidence'' = None"
  "map_of nothing_to_parse ''transcription_comments'' = None"
  "map_of nothing_to_parse ''datamatrix_match'' = None"
  by (simp_all add: nothing_to_parse_def)

lemma extraction_failed_entries:
  "map_of (extraction_failed e) ''transcription_confidence'' = Some (JInt 0)"
  "map_of (extraction_failed e) ''transcription_comments'' = Some (JStr (''Extraction failed: '' @ exc_str e))"
  "map_of (extraction_failed e) ''datamatrix_match'' = None"
  by (simp_all add: extraction_failed_def)


lemma stem_vial_007: "path_stem ''vial_007.png'' = ''vial_007''"
  by (simp add: path_stem_def path_name_def rfind_def)

lemma no_vendor_vial_007: "\<not> vendor_pattern_in ''vial_007''"
  unfolding search_vendor_None_iff[symmetric]
  by (simp add: match_vendor_here_def ascii_lower_def)

lemma vision_text_a_shape:
  "vision_text_a \<noteq> []" "hd vision_text_a = CHR ''{''" "last vision_text_a = CHR ''}''"
  by (simp_all add: vision_text_a_def)

lemma vision_text_c_shape:
  "vision_text_c \<noteq> []" "hd vision_text_c = CHR ''{''" "last vision_text_c = CHR ''}''"
  by (simp_all add: vision_text_c_def)

lemma parse_text_a_shape:
  "parse_text_a \<noteq> []" "hd parse_text_a = CHR ''{''" "last parse_text_a = CHR ''}''"
  by (simp_all add: parse_text_a_def)

lemma scenario_loads_a:
  "scenario_loads vision_text_a =
     Inr (JObj [(''datamatrix_integer'', JStr ''187''),
                (''transcribed_text'', JStr ''Nanomia 187''),
                (''transcription_confidence'', JInt 9),
                (''transcription_comments'', JStr [])])"
  by (simp add: scenario_loads_def)

lemma text_c_not_a: "vision_text_c \<noteq> vision_text_a"
  by (simp add: vision_text_c_def vision_text_a_def)

lemma parse_a_not_a: "parse_text_a \<noteq> vision_text_a"
  by (simp add: parse_text_a_def vision_text_a_def)

lemma text_c_not_parse_a: "vision_text_c \<noteq> parse_text_a"
  by (simp add: vision_text_c_def parse_text_a_def)

lemma scenario_loads_c:
  "scenario_loads vision_text_c =
     Inr (JObj [(''datamatrix_integer'', JStr ''7''),
                (''transcribed_text'', JStr []),
                (''transcription_confidence'', JInt 2),
                (''transcription_comments'', JStr ''blank label'')])"
  by (simp add: scenario_loads_def text_c_not_a text_c_not_parse_a)

lemma scenario_loads_parse_a:
  "scenario_loads parse_text_a =
     Inr (JObj [(''sample_number'', JStr ''187''),
                (''species'', JStr ''Nanomia bijuga''),
                (''parse_confidence'', JInt 8),
                (''parse_comments'', JStr [])])"
  by (simp add: scenario_loads_def parse_a_not_a)

lemma scenario_loads_array: "scenario_loads ''[]'' = Inr (JArr [])"
  by (simp add: scenario_loads_def vision_text_a_def parse_text_a_def vision_text_c_def)

section \<open>Facts about items taken one by one\<close>

lemma process_one_other_item:
  "j \<noteq> i \<Longrightarrow>
   process_one (svc\<lparr>vision_reply := (vision_reply svc)(i := f),
                    parse_reply := (parse_reply svc)(i := g)\<rparr>) j p = process_one svc j p"
proof -
  assume ji: "j \<noteq> i"
  let ?svc = "svc\<lparr>vision_reply := (vision_reply svc)(i := f),
                    parse_reply := (parse_reply svc)(i := g)\<rparr>"
  have e1: "extract_from_image ?svc j p = extract_from_image svc j p"
    using ji by (simp add: extract_from_image_def split: sum.split)
  have e2: "parse_transcription ?svc j = parse_transcription svc j"
    using ji by (simp add: parse_transcription_def fun_eq_iff split: sum.split)
  show ?thesis
    by (simp add: process_one_def Let_def e1 e2 cong: sum.case_cong json.case_cong prod.case_cong if_cong)
qed

lemma scenario_extract_b:
  "extract_from_image scenario 1 p = Inl (PyException ''APITimeoutError'' ''Request timed out.'')"
  by (simp add: extract_from_image_def scenario_def)

lemma scenario_extract_a:
  "extract_from_image scenario 0 p =
     Inr (JObj [(''datamatrix_integer'', JStr ''187''),
                (''transcribed_text'', JStr ''Nanomia 187''),
                (''transcription_confidence'', JInt 9),
                (''transcription_comments'', JStr [])])"
proof -
  have "decode_reply scenario_loads ([] @ ''```'' @ ''json'' @ [NL] @ vision_text_a @ [NL] @ ''```'' @ [])
          = scenario_loads vision_text_a"
    by (rule decode_reply_fenced_record) (simp_all add: vision_text_a_shape)
  then show ?thesis
    by (simp add: extract_from_image_def scenario_def scenario_loads_a)
qed

lemma scenario_extract_c:
  "extract_from_image scenario 2 p =
     Inr (JObj [(''datamatrix_integer'', JStr ''7''),
                (''transcribed_text'', JStr []),
                (''transcription_confidence'', JInt 2),
                (''transcription_comments'', JStr ''blank label'')])"
proof -
  have "decode_reply scenario_loads vision_text_c = scenario_loads vision_text_c"
    by (rule decode_reply_record) (simp_all add: vision_text_c_shape)
  then show ?thesis
    by (simp add: extract_from_image_def scenario_def scenario_loads_c)
qed

lemma decode_array: "decode_reply scenario_loads ''[]'' = Inr (JArr [])"
proof -
  have "py_strip ''[]'' = ''[]''" by (simp add: py_strip_def is_space_def)
  moreover have "strip_open_fence ''[]'' = ''[]''" by (simp add: strip_open_fence_def)
  moreover have "strip_close_fence ''[]'' = ''[]''" by (simp add: strip_close_fence_def drop_suffix_def)
  ultimately show ?thesis by (simp add: decode_reply_def scenario_loads_array)
qed

lemma scenario_extract_d: "extract_from_image scenario 3 p = Inr (JArr [])"
  by (simp add: extract_from_image_def scenario_def decode_array)

lemma scenario_parse:
  "parse_transcription scenario i t =
     Inr (JObj [(''sample_number'', JStr ''187''),
                (''species'', JStr ''Nanomia bijuga''),
                (''parse_confidence'', JInt 8),
                (''parse_comments'', JStr [])])"
proof -
  have "decode_reply scenario_loads parse_text_a = scenario_loads parse_text_a"
    by (rule decode_reply_record) (simp_all add: parse_text_a_shape)
  then show ?thesis
    by (simp add: parse_transcription_def scenario_def scenario_loads_parse_a)
qed

lemma scenario_process_d:
  "process_one scenario 3 p =
     ([ExtractCall 3 p],
      Inl (PyException ''AttributeError''
             (quoted ''list'' @ '' object has no attribute '' @ quoted ''get'')))"
  using process_one_not_object[OF scenario_extract_d, of p] by simp

lemma collect_results_all:
  "(\<And>i. i \<in> set completed \<Longrightarrow> \<exists>r. task i = Inr r) \<Longrightarrow>
   \<exists>rows. collect_results task completed results = Inr rows \<and>
          length rows = length results + length completed"
proof (induction completed arbitrary: results)
  case Nil
  then show ?case by simp
next
  case (Cons i completed)
  from Cons.prems[of i] obtain r where r: "task i = Inr r" by auto
  have "\<exists>rows. collect_results task completed (results @ [r]) = Inr rows \<and>
          length rows = length (results @ [r]) + length completed"
    by (rule Cons.IH) (simp add: Cons.prems)
  with r show ?case by simp
qed

lemma collect_results_raises:
  "task i = Inl e \<Longrightarrow> (\<And>j. j \<in> set before \<Longrightarrow> \<exists>r. task j = Inr r) \<Longrightarrow>
   collect_results task (before @ i # after) results = Inl e"
proof (induction before arbitrary: results)
  case Nil
  then show ?case by simp
next
  case (Cons j before)
  from Cons.prems(2)[of j] obtain r where r: "task j = Inr r" by auto
  have "collect_results task (before @ i # after) (results @ [r]) = Inl e"
    by (rule Cons.IH) (simp_all add: Cons.prems)
  with r show ?case by simp
qed

lemma collect_results_rows:
  "(\<And>i. i \<in> set completed \<Longrightarrow> \<exists>r. task i = Inr r) \<Longrightarrow>
   collect_results task completed results = Inr (results @ map (\<lambda>i. projr (task i)) completed)"
proof (induction completed arbitrary: results)
  case Nil
  then show ?case by simp
next
  case (Cons i completed)
  from Cons.prems[of i] obtain r where r: "task i = Inr r" by auto
  have "collect_results task completed (results @ [r]) =
          Inr ((results @ [r]) @ map (\<lambda>i. projr (task i)) completed)"
    by (rule Cons.IH) (simp add: Cons.prems)
  with r show ?case by simp
qed

lemma process_all_rows:
  assumes "0 < batch_size" "image_paths \<noteq> []"
    "\<And>i. i \<in> set completed \<Longrightarrow> \<exists>r. snd (process_one svc i (image_paths ! i)) = Inr r"
  shows "process_all svc batch_size completed image_paths =
           Some (Inr (map (\<lambda>i. projr (snd (process_one svc i (image_paths ! i)))) completed))"
  using assms(1,2)
    collect_results_rows[of completed "\<lambda>i. snd (process_one svc i (image_paths ! i))" "[]", OF assms(3)]
  by (simp add: process_all_def)

lemma completion_order_length: "completion_order completed n \<Longrightarrow> length completed = n"
  unfolding completion_order_def using distinct_card[of completed] by auto

lemma process_all_one_row_each_when_objects:
  assumes "0 < batch_size" "completion_order completed (length image_paths)"
    "\<And>i v. i < length image_paths \<Longrightarrow> extract_from_image svc i (image_paths ! i) = Inr v
        \<Longrightarrow> is_object v"
    "\<And>i t v. i < length image_paths \<Longrightarrow> parse_transcription svc i t = Inr v \<Longrightarrow> is_object v"
  shows "\<exists>rows. process_all svc batch_size completed image_paths = Some (Inr rows) \<and>
           length rows = length image_paths"
proof (cases "image_paths = []")
  case True
  with assms(1) show ?thesis by (simp add: process_all_def)
next
  case False
  let ?task = "\<lambda>i. snd (process_one svc i (image_paths ! i))"
  have "\<exists>r. ?task i = Inr r" if "i \<in> set completed" for i
  proof -
    from that assms(2) have i: "i < length image_paths"
      by (auto simp: completion_order_def)
    have "\<exists>evs r. process_one svc i (image_paths ! i) = (evs, Inr r)"
      using assms(3)[OF i] assms(4)[OF i] by (intro process_one_objects) auto
    then show ?thesis by auto
  qed
  then have "\<exists>rows. collect_results ?task completed [] = Inr rows \<and>
          length rows = length ([] :: row list) + length completed"
    by (intro collect_results_all) auto
  then show ?thesis
    using False assms(1) completion_order_length[OF assms(2)] by (auto simp: process_all_def)
qed

lemma scenario_task_rows:
  "\<exists>r. snd (process_one scenario 0 p) = Inr r"
  "\<exists>r. snd (process_one scenario 1 p) = Inr r"
  "\<exists>r. snd (process_one scenario 2 p) = Inr r"
proof -
  have "\<exists>evs r. process_one scenario 0 p = (evs, Inr r)"
    by (intro process_one_objects) (simp_all add: scenario_extract_a scenario_parse)
  then show "\<exists>r. snd (process_one scenario 0 p) = Inr r" by auto
  show "\<exists>r. snd (process_one scenario 1 p) = Inr r"
    unfolding process_one_extraction_failed[OF scenario_extract_b] by simp
  have "process_one scenario 2 p =
           ([ExtractCall 2 p],
            Inr (record_row p (extract_integer_from_filename (path_name p))
                   (datamatrix_match (dict_get [(''datamatrix_integer'', JStr ''7''),
                (''transcribed_text'', JStr []),
                (''transcription_confidence'', JInt 2),
                (''transcription_comments'', JStr ''blank label'')] ''datamatrix_integer'')
                      (extract_integer_from_filename (path_name p)))
                   [(''datamatrix_integer'', JStr ''7''),
                (''transcribed_text'', JStr []),
                (''transcription_confidence'', JInt 2),
                (''transcription_comments'', JStr ''blank label'')] nothing_to_parse))"
    by (rule process_one_nothing_to_parse[OF scenario_extract_c]) (simp add: dict_get_def)
  then show "\<exists>r. snd (process_one scenario 2 p) = Inr r" by simp
qed

lemma row_fill_nonzero_scores:
  assumes "r ''transcription_confidence'' = Some (JInt t)" "r ''parse_confidence'' = Some (JInt p)"
    "t \<noteq> 0" "p \<noteq> 0"
  shows "row_fill r =
           Inr (if min t p \<le> 3 then Some RED_FILL else if min t p \<le> 6 then Some YELLOW_FILL else None)"
proof -
  have "min_conf r = Inr (of_int (min t p))"
    using assms by (simp add: min_conf_def row_get_def py_or_def min_def)
  then show ?thesis by (simp add: row_fill_def)
qed

lemma cell_fill_mismatch:
  assumes "row_fill r = Inr f" "r ''datamatrix_match'' = Some (JBool False)"
  shows "cell_fill r ''datamatrix_match'' = Inr (Some RED_FILL)"
  using assms by (simp add: cell_fill_def row_get_def)

section \<open>More facts about the scripted run\<close>

lemma stem_examples:
  "path_stem ''DunnLab000187.jpg'' = ''DunnLab000187''"
  "path_stem ''vial_42_after.png'' = ''vial_42_after''"
  "path_stem ''dunnlab000.tif'' = ''dunnlab000''"
  by (simp_all add: path_stem_def path_name_def rfind_def)

lemma is_image_dunnlab000: "is_image ''dunnlab000.tif''"
  by (simp add: is_image_def path_suffix_def path_name_def rfind_def EXTENSIONS_def ascii_lower_def)

lemma no_vendor_vial_42_after: "\<not> vendor_pattern_in ''vial_42_after''"
  unfolding search_vendor_None_iff[symmetric]
  by (simp add: match_vendor_here_def ascii_lower_def)

lemma array_parser_extract:
  "extract_from_image array_parser 0 p =
     Inr (JObj [(''datamatrix_integer'', JStr ''187''),
                (''transcribed_text'', JStr ''Nanomia 187''),
                (''transcription_confidence'', JInt 9),
                (''transcription_comments'', JStr [])])"
proof -
  have "extract_from_image array_parser 0 p = extract_from_image scenario 0 p"
    by (simp add: extract_from_image_def array_parser_def scenario_def)
  then show ?thesis by (simp only: scenario_extract_a)
qed

lemma array_parser_parse: "parse_transcription array_parser i t = Inr (JArr [])"
  by (simp add: parse_transcription_def array_parser_def scenario_def decode_array)

section \<open>One row per item\<close>

text \<open>
  C1. The run of the scripted scenario: four items, the tasks completing in the order
  of submission. The tasks of the first three items return rows (one of them after a
  timeout of its vision call). The reply for the fourth item is the JSON array \<open>[]\<close>;
  its task raises \<open>AttributeError\<close>, and \<open>process_all\<close> raises it instead of returning
  four rows. By \<open>process_all_one_row_each_when_objects\<close>, with a positive batch size
  and every decoded reply a dict the result has one row per item, however many stage
  calls raised.
\<close>

theorem process_all_array_reply_raises:
  "process_all scenario 4 [0, 1, 2, 3] scenario_items =
     Some (Inl (PyException ''AttributeError''
                  (quoted ''list'' @ '' object has no attribute '' @ quoted ''get'')))"
proof -
  let ?task = "\<lambda>i. snd (process_one scenario i (scenario_items ! i))"
  have "?task 3 = Inl (PyException ''AttributeError''
                  (quoted ''list'' @ '' object has no attribute '' @ quoted ''get''))"
    by (simp only: scenario_process_d snd_conv)
  moreover have "\<exists>r. ?task j = Inr r" if "j \<in> set [0, 1, 2]" for j
    using that scenario_task_rows by auto
  ultimately have "collect_results ?task ([0, 1, 2] @ 3 # []) [] =
      Inl (PyException ''AttributeError''
                  (quoted ''list'' @ '' object has no attribute '' @ quoted ''get''))"
    by (rule collect_results_raises)
  then show ?thesis by (simp add: process_all_def scenario_items_def)
qed

section \<open>Containment of a failed extraction\<close>

text \<open>
  C2. When the vision stage of an item raises (the call to \<open>extract_from_image\<close> ends
  with an exception: the image cannot be read, the transport fails or times out, the
  reply has no text or \<open>json.loads\<close> rejects it), \<open>process_one\<close> logs the error and
  returns a row, not an exception. The row has \<open>transcription_confidence\<close> 0 and the
  comment \<open>Extraction failed:\<close> followed by the text of the exception. What
  \<open>process_one\<close> returns for any other item does not depend on what the two stages do
  for this item, and when the tasks return rows \<open>process_all\<close> returns, in the order of
  completion, the row of each task.
\<close>

theorem extraction_failure_is_contained:
  "(extract_from_image svc i path = Inl e \<longrightarrow>
      (\<exists>r. process_one svc i path =
             ([ExtractCall i path,
               ErrorLog (''Extraction failed for '' @ path @ '': '' @ exc_str e)], Inr r) \<and>
           r ''transcription_confidence'' = Some (JInt 0) \<and>
           r ''transcription_comments'' = Some (JStr (''Extraction failed: '' @ exc_str e)))) \<and>
   (\<forall>j p. j \<noteq> i \<longrightarrow>
      process_one (svc\<lparr>vision_reply := (vision_reply svc)(i := f),
                       parse_reply := (parse_reply svc)(i := g)\<rparr>) j p = process_one svc j p) \<and>
   (0 < batch_size \<and> image_paths \<noteq> [] \<and>
    (\<forall>k. k \<in> set completed \<longrightarrow> (\<exists>r. snd (process_one svc k (image_paths ! k)) = Inr r))
    \<longrightarrow> process_all svc batch_size completed image_paths =
          Some (Inr (map (\<lambda>k. projr (snd (process_one svc k (image_paths ! k)))) completed)))"
proof (intro conjI allI impI)
  assume h: "extract_from_image svc i path = Inl e"
  let ?r = "record_row path (extract_integer_from_filename (path_name path)) None
              (extraction_failed e) nothing_to_parse"
  have "?r ''transcription_confidence'' = Some (JInt 0)"
    by (rule record_row_extracted) (simp_all only: nothing_to_parse_entries extraction_failed_entries)
  moreover have "?r ''transcription_comments'' = Some (JStr (''Extraction failed: '' @ exc_str e))"
    by (rule record_row_extracted) (simp_all only: nothing_to_parse_entries extraction_failed_entries)
  ultimately show "\<exists>r. process_one svc i path =
             ([ExtractCall i path,
               ErrorLog (''Extraction failed for '' @ path @ '': '' @ exc_str e)], Inr r) \<and>
           r ''transcription_confidence'' = Some (JInt 0) \<and>
           r ''transcription_comments'' = Some (JStr (''Extraction failed: '' @ exc_str e))"
    using process_one_extraction_failed[OF h] by (intro exI[of _ ?r]) simp
next
  fix j p
  assume "j \<noteq> i"
  then show "process_one (svc\<lparr>vision_reply := (vision_reply svc)(i := f),
                       parse_reply := (parse_reply svc)(i := g)\<rparr>) j p = process_one svc j p"
    by (rule process_one_other_item)
next
  assume "0 < batch_size \<and> image_paths \<noteq> [] \<and>
    (\<forall>k. k \<in> set completed \<longrightarrow> (\<exists>r. snd (process_one svc k (image_paths ! k)) = Inr r))"
  then show "process_all svc batch_size completed image_paths =
          Some (Inr (map (\<lambda>k. projr (snd (process_one svc k (image_paths ! k)))) completed))"
    by (intro process_all_rows) auto
qed

theorem extraction_failure_is_contained_witness:
  "extract_from_image scenario 1 ''vials/DunnLab000188.jpg'' =
     Inl (PyException ''APITimeoutError'' ''Request timed out.'') \<and>
   (\<exists>r. process_one scenario 1 ''vials/DunnLab000188.jpg'' =
          ([ExtractCall 1 ''vials/DunnLab000188.jpg'',
            ErrorLog ''Extraction failed for vials/DunnLab000188.jpg: Request timed out.''], Inr r) \<and>
        r ''transcription_confidence'' = Some (JInt 0) \<and>
        r ''transcription_comments'' = Some (JStr ''Extraction failed: Request timed out.'')) \<and>
   process_one (scenario\<lparr>vision_reply := (vision_reply scenario)(1 := \<lambda>p. Inr ''[]''),
                         parse_reply := (parse_reply scenario)(1 := \<lambda>t. Inr ''[]'')\<rparr>)
       0 ''vials/DunnLab000187.jpg'' = process_one scenario 0 ''vials/DunnLab000187.jpg'' \<and>
   process_all scenario 4 [1, 0, 2] (take 3 scenario_items) =
     Some (Inr (map (\<lambda>k. projr (snd (process_one scenario k (take 3 scenario_items ! k)))) [1, 0, 2]))"
proof -
  note t = extraction_failure_is_contained[where svc = scenario and i = 1
      and path = "''vials/DunnLab000188.jpg''"
      and e = "PyException ''APITimeoutError'' ''Request timed out.''"
      and f = "\<lambda>p. Inr ''[]''" and g = "\<lambda>t. Inr ''[]''"
      and batch_size = 4 and image_paths = "take 3 scenario_items" and completed = "[1, 0, 2]"]
  have a: "\<exists>r. process_one scenario 1 ''vials/DunnLab000188.jpg'' =
          ([ExtractCall 1 ''vials/DunnLab000188.jpg'',
            ErrorLog (''Extraction failed for '' @ ''vials/DunnLab000188.jpg'' @ '': '' @
               exc_str (PyException ''APITimeoutError'' ''Request timed out.''))], Inr r) \<and>
        r ''transcription_confidence'' = Some (JInt 0) \<and>
        r ''transcription_comments'' = Some (JStr (''Extraction failed: '' @
               exc_str (PyException ''APITimeoutError'' ''Request timed out.'')))"
    using t[THEN conjunct1] scenario_extract_b by simp
  have b: "process_one (scenario\<lparr>vision_reply := (vision_reply scenario)(1 := \<lambda>p. Inr ''[]''),
                         parse_reply := (parse_reply scenario)(1 := \<lambda>t. Inr ''[]'')\<rparr>)
       0 ''vials/DunnLab000187.jpg'' = process_one scenario 0 ''vials/DunnLab000187.jpg''"
    using t[THEN conjunct2, THEN conjunct1, rule_format, of 0 "''vials/DunnLab000187.jpg''"] by simp
  have rows: "\<exists>r. snd (process_one scenario k (take 3 scenario_items ! k)) = Inr r"
    if "k \<in> set [1, 0, 2]" for k
    using that scenario_task_rows by auto
  have c: "process_all scenario 4 [1, 0, 2] (take 3 scenario_items) =
     Some (Inr (map (\<lambda>k. projr (snd (process_one scenario k (take 3 scenario_items ! k)))) [1, 0, 2]))"
    by (rule t[THEN conjunct2, THEN conjunct2, rule_format])
       (use rows in \<open>simp add: scenario_items_def\<close>)
  show ?thesis using a b c scenario_extract_b by simp
qed

section \<open>The three-valued match\<close>



section \<open>The colour of a failed row\<close>

text \<open>
  C4. The row \<open>process_one\<close> builds after a failed extraction has both confidence
  scores 0, so their minimum is at most 3. \<open>write_spreadsheet\<close> reads each score
  with \<open>row.get(...) or 10\<close>, which turns 0 into 10: the minimum it compares is 10, the
  row gets no fill, and no cell of it is flagged. The last conjunct is that row for
  the timed-out item of the scenario.
\<close>

theorem failed_row_is_left_unflagged:
  "record_row path fi None (extraction_failed e) nothing_to_parse ''transcription_confidence'' =
     Some (JInt 0) \<and>
   record_row path fi None (extraction_failed e) nothing_to_parse ''parse_confidence'' =
     Some (JInt 0) \<and>
   row_fill (record_row path fi None (extraction_failed e) nothing_to_parse) = Inr None \<and>
   cell_fill (record_row path fi None (extraction_failed e) nothing_to_parse) name = Inr None \<and>
   snd (process_one scenario 1 ''vials/DunnLab000188.jpg'') =
     Inr (record_row ''vials/DunnLab000188.jpg'' (Some ''188'') None
            (extraction_failed (PyException ''APITimeoutError'' ''Request timed out.''))
            nothing_to_parse)"
proof -
  let ?r = "record_row path fi None (extraction_failed e) nothing_to_parse"
  have t: "?r ''transcription_confidence'' = Some (JInt 0)"
    by (rule record_row_extracted) (simp_all only: nothing_to_parse_entries extraction_failed_entries)
  have p: "?r ''parse_confidence'' = Some (JInt 0)"
    by (rule record_row_parsed) (simp only: nothing_to_parse_entries)
  have m: "?r ''datamatrix_match'' = Some JNull"
    using record_row_match[of "extraction_failed e" nothing_to_parse path fi None]
    by (simp add: extraction_failed_def nothing_to_parse_def)
  have f: "row_fill ?r = Inr None"
    by (simp add: row_fill_def min_conf_def row_get_def py_or_def t p)
  have c: "cell_fill ?r name = Inr None"
    by (simp add: cell_fill_def f row_get_def m)
  have fi: "extract_integer_from_filename (path_name ''vials/DunnLab000188.jpg'') = Some ''188''"
    by (simp add: extract_integer_from_filename_def path_stem_def path_name_def rfind_def
        match_vendor_here_def match_zeros_digits_def ascii_lower_def is_digit_def)
  have s: "snd (process_one scenario 1 ''vials/DunnLab000188.jpg'') =
     Inr (record_row ''vials/DunnLab000188.jpg'' (Some ''188'') None
            (extraction_failed (PyException ''APITimeoutError'' ''Request timed out.''))
            nothing_to_parse)"
    unfolding process_one_extraction_failed[OF scenario_extract_b] fi by simp
  show ?thesis using t p f c s by (simp del: One_nat_def)
qed

section \<open>The Filename Correlator's policy\<close>

text \<open>
  C5. \<open>extract_integer_from_filename\<close> searches the stem of the name (the name without
  its last extension). First tier: at the leftmost place where the token \<open>DunnLab\<close>, in
  any case, is followed by a digit, the run of digits after the token is returned
  without its leading zeros; a run of zeros only gives \<open>0\<close>. Second tier: when there is
  no such place, the first run of digits is returned. The result is none exactly when
  the stem has no digit. The first four conjuncts say this of the stem, for any input.
  The last says it of the name itself when the name is that of a discovered item (no
  \<open>/\<close>, a recognised extension): the extension then has no digit, so the runs of
  digits of the name are those of the stem, and the result is none exactly when the
  name has no digit. The function is total: it has no failing branch, and absence is
  the value \<open>None\<close>. The witness derives the three examples of the specification from
  the theorem.
\<close>

theorem extract_integer_from_filename_policy:
  "(\<forall>pre tok zs ds post.
      path_stem name = pre @ tok @ zs @ ds @ post \<and> \<not> vendor_pattern_in pre \<and>
      map ascii_lower tok = ''dunnlab'' \<and> set zs \<subseteq> {CHR ''0''} \<and>
      ds \<noteq> [] \<and> list_all is_digit ds \<and> hd ds \<noteq> CHR ''0'' \<and>
      (post = [] \<or> \<not> is_digit (hd post))
      \<longrightarrow> extract_integer_from_filename name = Some ds) \<and>
   (\<forall>pre tok zs post.
      path_stem name = pre @ tok @ zs @ post \<and> \<not> vendor_pattern_in pre \<and>
      map ascii_lower tok = ''dunnlab'' \<and> zs \<noteq> [] \<and> set zs \<subseteq> {CHR ''0''} \<and>
      (post = [] \<or> \<not> is_digit (hd post))
      \<longrightarrow> extract_integer_from_filename name = Some ''0'') \<and>
   (\<forall>pre ds post.
      \<not> vendor_pattern_in (path_stem name) \<and> path_stem name = pre @ ds @ post \<and>
      list_all (\<lambda>c. \<not> is_digit c) pre \<and> ds \<noteq> [] \<and> list_all is_digit ds \<and>
      (post = [] \<or> \<not> is_digit (hd post))
      \<longrightarrow> extract_integer_from_filename name = Some ds) \<and>
   (extract_integer_from_filename name = None \<longleftrightarrow> list_all (\<lambda>c. \<not> is_digit c) (path_stem name)) \<and>
   (CHR ''/'' \<notin> set name \<and> is_image name \<longrightarrow>
      (\<forall>pre tok zs ds post.
         name = pre @ tok @ zs @ ds @ post \<and> \<not> vendor_pattern_in pre \<and>
         map ascii_lower tok = ''dunnlab'' \<and> set zs \<subseteq> {CHR ''0''} \<and>
         ds \<noteq> [] \<and> list_all is_digit ds \<and> hd ds \<noteq> CHR ''0'' \<and>
         (post = [] \<or> \<not> is_digit (hd post))
         \<longrightarrow> extract_integer_from_filename name = Some ds) \<and>
      (\<forall>pre tok zs post.
         name = pre @ tok @ zs @ post \<and> \<not> vendor_pattern_in pre \<and>
         map ascii_lower tok = ''dunnlab'' \<and> zs \<noteq> [] \<and> set zs \<subseteq> {CHR ''0''} \<and>
         (post = [] \<or> \<not> is_digit (hd post))
         \<longrightarrow> extract_integer_from_filename name = Some ''0'') \<and>
      (\<forall>pre ds post.
         \<not> vendor_pattern_in name \<and> name = pre @ ds @ post \<and>
         list_all (\<lambda>c. \<not> is_digit c) pre \<and> ds \<noteq> [] \<and> list_all is_digit ds \<and>
         (post = [] \<or> \<not> is_digit (hd post))
         \<longrightarrow> extract_integer_from_filename name = Some ds) \<and>
      (extract_integer_from_filename name = None \<longleftrightarrow> list_all (\<lambda>c. \<not> is_digit c) name))"
proof (intro conjI allI impI)
  fix pre tok zs ds post
  assume h: "path_stem name = pre @ tok @ zs @ ds @ post \<and> \<not> vendor_pattern_in pre \<and>
      map ascii_lower tok = ''dunnlab'' \<and> set zs \<subseteq> {CHR ''0''} \<and>
      ds \<noteq> [] \<and> list_all is_digit ds \<and> hd ds \<noteq> CHR ''0'' \<and>
      (post = [] \<or> \<not> is_digit (hd post))"
  then have "match_zeros_digits (zs @ ds @ post) = Some ds"
    by (intro match_zeros_digits_run) (simp_all add: list_all_iff)
  with h show "extract_integer_from_filename name = Some ds"
    by (intro vendor_tier_value[of name pre tok "zs @ ds @ post"]) simp_all
next
  fix pre tok zs post
  assume h: "path_stem name = pre @ tok @ zs @ post \<and> \<not> vendor_pattern_in pre \<and>
      map ascii_lower tok = ''dunnlab'' \<and> zs \<noteq> [] \<and> set zs \<subseteq> {CHR ''0''} \<and>
      (post = [] \<or> \<not> is_digit (hd post))"
  then have "match_zeros_digits (zs @ post) = Some ''0''"
    by (intro match_zeros_digits_zeros) simp_all
  with h show "extract_integer_from_filename name = Some ''0''"
    by (intro vendor_tier_value[of name pre tok "zs @ post"]) simp_all
next
  fix pre ds post
  assume "\<not> vendor_pattern_in (path_stem name) \<and> path_stem name = pre @ ds @ post \<and>
      list_all (\<lambda>c. \<not> is_digit c) pre \<and> ds \<noteq> [] \<and> list_all is_digit ds \<and>
      (post = [] \<or> \<not> is_digit (hd post))"
  then have "\<not> vendor_pattern_in (path_stem name)" "path_stem name = pre @ ds @ post"
    "\<forall>c\<in>set pre. \<not> is_digit c" "ds \<noteq> []" "\<forall>c\<in>set ds. is_digit c"
    "post = [] \<or> \<not> is_digit (hd post)"
    by (auto simp: list_all_iff)
  then show "extract_integer_from_filename name = Some ds"
    by (rule fallback_tier_value)
next
  show "extract_integer_from_filename name = None \<longleftrightarrow> list_all (\<lambda>c. \<not> is_digit c) (path_stem name)"
    by (simp add: extract_None_iff list_all_iff)
next
  fix pre tok zs ds post
  assume item: "CHR ''/'' \<notin> set name \<and> is_image name"
  assume "name = pre @ tok @ zs @ ds @ post \<and> \<not> vendor_pattern_in pre \<and>
         map ascii_lower tok = ''dunnlab'' \<and> set zs \<subseteq> {CHR ''0''} \<and>
         ds \<noteq> [] \<and> list_all is_digit ds \<and> hd ds \<noteq> CHR ''0'' \<and>
         (post = [] \<or> \<not> is_digit (hd post))"
  then have "name = pre @ tok @ zs @ ds @ post" "\<not> vendor_pattern_in pre"
      "map ascii_lower tok = ''dunnlab''" "set zs \<subseteq> {CHR ''0''}" "ds \<noteq> []"
      "\<forall>c\<in>set ds. is_digit c" "hd ds \<noteq> CHR ''0''" "post = [] \<or> \<not> is_digit (hd post)"
    by (auto simp: list_all_iff)
  with item show "extract_integer_from_filename name = Some ds"
    by (intro item_vendor_tier_run[of name pre tok zs ds post]) simp_all
next
  fix pre tok zs post
  assume item: "CHR ''/'' \<notin> set name \<and> is_image name"
  assume "name = pre @ tok @ zs @ post \<and> \<not> vendor_pattern_in pre \<and>
         map ascii_lower tok = ''dunnlab'' \<and> zs \<noteq> [] \<and> set zs \<subseteq> {CHR ''0''} \<and>
         (post = [] \<or> \<not> is_digit (hd post))"
  then have "name = pre @ tok @ zs @ post" "\<not> vendor_pattern_in pre"
      "map ascii_lower tok = ''dunnlab''" "zs \<noteq> []" "set zs \<subseteq> {CHR ''0''}"
      "post = [] \<or> \<not> is_digit (hd post)"
    by auto
  with item show "extract_integer_from_filename name = Some ''0''"
    by (intro item_vendor_tier_zeros[of name pre tok zs post]) simp_all
next
  fix pre ds post
  assume item: "CHR ''/'' \<notin> set name \<and> is_image name"
  assume "\<not> vendor_pattern_in name \<and> name = pre @ ds @ post \<and>
         list_all (\<lambda>c. \<not> is_digit c) pre \<and> ds \<noteq> [] \<and> list_all is_digit ds \<and>
         (post = [] \<or> \<not> is_digit (hd post))"
  then have "\<not> vendor_pattern_in name" "name = pre @ ds @ post"
      "\<forall>c\<in>set pre. \<not> is_digit c" "ds \<noteq> []" "\<forall>c\<in>set ds. is_digit c"
      "post = [] \<or> \<not> is_digit (hd post)"
    by (auto simp: list_all_iff)
  with item show "extract_integer_from_filename name = Some ds"
    by (intro item_fallback_tier[of name pre ds post]) simp_all
next
  assume "CHR ''/'' \<notin> set name \<and> is_image name"
  then show "extract_integer_from_filename name = None \<longleftrightarrow> list_all (\<lambda>c. \<not> is_digit c) name"
    using image_name_digits[of name] by (simp add: extract_None_iff list_all_iff)
qed

theorem extract_integer_from_filename_policy_witness:
  "path_stem ''DunnLab000187.jpg'' = [] @ ''DunnLab'' @ ''000'' @ ''187'' @ [] \<and>
   path_stem ''dunnlab000.tif'' = [] @ ''dunnlab'' @ ''000'' @ [] \<and>
   path_stem ''vial_42_after.png'' = ''vial_'' @ ''42'' @ ''_after'' \<and>
   \<not> vendor_pattern_in [] \<and>
   \<not> vendor_pattern_in (path_stem ''vial_42_after.png'') \<and>
   \<not> vendor_pattern_in ''vial_42_after.png'' \<and>
   is_image ''DunnLab000187.jpg'' \<and> is_image ''dunnlab000.tif'' \<and>
   is_image ''vial_42_after.png'' \<and> is_image ''nocode.png'' \<and>
   extract_integer_from_filename ''DunnLab000187.jpg'' = Some ''187'' \<and>
   extract_integer_from_filename ''dunnlab000.tif'' = Some ''0'' \<and>
   extract_integer_from_filename ''vial_42_after.png'' = Some ''42'' \<and>
   extract_integer_from_filename ''nocode.png'' = None"
proof -
  note s1 = extract_integer_from_filename_policy[of "''DunnLab000187.jpg''"]
  note s2 = extract_integer_from_filename_policy[of "''dunnlab000.tif''"]
  note s3 = extract_integer_from_filename_policy[of "''vial_42_after.png''"]
  note s4 = extract_integer_from_filename_policy[of "''nocode.png''"]
  note n1 = s1[THEN conjunct2, THEN conjunct2, THEN conjunct2, THEN conjunct2, rule_format]
  note n2 = s2[THEN conjunct2, THEN conjunct2, THEN conjunct2, THEN conjunct2, rule_format]
  note n3 = s3[THEN conjunct2, THEN conjunct2, THEN conjunct2, THEN conjunct2, rule_format]
  note n4 = s4[THEN conjunct2, THEN conjunct2, THEN conjunct2, THEN conjunct2, rule_format]
  have a: "extract_integer_from_filename ''DunnLab000187.jpg'' = Some ''187''"
    by (rule s1[THEN conjunct1, rule_format, of "[]" "''DunnLab''" "''000''" "''187''" "[]"])
       (simp add: stem_examples no_vendor_pattern_Nil ascii_lower_def is_digit_def)
  have b: "extract_integer_from_filename ''dunnlab000.tif'' = Some ''0''"
    by (rule s2[THEN conjunct2, THEN conjunct1, rule_format, of "[]" "''dunnlab''" "''000''" "[]"])
       (simp add: stem_examples no_vendor_pattern_Nil ascii_lower_def)
  have c: "extract_integer_from_filename ''vial_42_after.png'' = Some ''42''"
    by (rule s3[THEN conjunct2, THEN conjunct2, THEN conjunct1, rule_format,
          of "''vial_''" "''42''" "''_after''"])
       (simp add: stem_examples no_vendor_vial_42_after is_digit_def)
  have a': "extract_integer_from_filename ''DunnLab000187.jpg'' = Some ''187''"
    by (rule n1[THEN conjunct1, rule_format, of "[]" "''DunnLab''" "''000''" "''187''" "''.jpg''"])
       (simp_all add: is_image_examples no_vendor_pattern_Nil ascii_lower_def is_digit_def)
  have b': "extract_integer_from_filename ''dunnlab000.tif'' = Some ''0''"
    by (rule n2[THEN conjunct2, THEN conjunct1, rule_format, of "[]" "''dunnlab''" "''000''" "''.tif''"])
       (simp_all add: is_image_dunnlab000 no_vendor_pattern_Nil ascii_lower_def is_digit_def)
  have c': "extract_integer_from_filename ''vial_42_after.png'' = Some ''42''"
    by (rule n3[THEN conjunct2, THEN conjunct2, THEN conjunct1, rule_format,
          of "''vial_''" "''42''" "''_after.png''"])
       (simp_all add: is_image_examples no_vendor_vial_42_after_png is_digit_def)
  have d: "extract_integer_from_filename ''nocode.png'' = None"
    using n4[THEN conjunct2, THEN conjunct2, THEN conjunct2] is_image_nocode
    by (simp add: is_digit_def)
  have d': "extract_integer_from_filename ''nocode.png'' = None"
    using s4[THEN conjunct2, THEN conjunct2, THEN conjunct2, THEN conjunct1]
    by (simp add: path_stem_def path_name_def rfind_def is_digit_def)
  show ?thesis
    using a b c a' b' c' d d'
    by (simp add: stem_examples is_image_examples is_image_dunnlab000 is_image_nocode
        no_vendor_vial_42_after no_vendor_vial_42_after_png no_vendor_pattern_Nil)
qed

section \<open>No text, no parse\<close>

text \<open>
  C6. When the extraction result's \<open>transcribed_text\<close> is \<open>None\<close> or the empty
  string (the decoded reply says so, or the stage failed and the sentinel stands in),
  \<open>process_one\<close> calls no parser: its events are the call of the extractor and, after a
  failure, the logged error; no \<open>ParseCall\<close> is among them. The row has
  \<open>parse_confidence\<close> 0 and the comment \<open>No transcribed text to parse.\<close>
\<close>

theorem no_text_skips_field_parser:
  "(extract_from_image svc i path = Inr (JObj ed) \<and>
    dict_get ed ''transcribed_text'' \<in> {JNull, JStr []}
    \<longrightarrow> (\<exists>r. process_one svc i path = ([ExtractCall i path], Inr r) \<and>
             r ''parse_confidence'' = Some (JInt 0) \<and>
             r ''parse_comments'' = Some (JStr ''No transcribed text to parse.''))) \<and>
   (extract_from_image svc i path = Inl e
    \<longrightarrow> (\<exists>r. process_one svc i path =
               ([ExtractCall i path,
                 ErrorLog (''Extraction failed for '' @ path @ '': '' @ exc_str e)], Inr r) \<and>
             r ''parse_confidence'' = Some (JInt 0) \<and>
             r ''parse_comments'' = Some (JStr ''No transcribed text to parse.'')))"
proof (intro conjI impI)
  assume h: "extract_from_image svc i path = Inr (JObj ed) \<and>
    dict_get ed ''transcribed_text'' \<in> {JNull, JStr []}"
  then have x: "extract_from_image svc i path = Inr (JObj ed)" by simp
  from h have "\<not> py_truthy (dict_get ed ''transcribed_text'')" by auto
  note p = process_one_nothing_to_parse[OF x this]
  let ?r = "record_row path (extract_integer_from_filename (path_name path))
              (datamatrix_match (dict_get ed ''datamatrix_integer'')
                 (extract_integer_from_filename (path_name path))) ed nothing_to_parse"
  have "?r ''parse_confidence'' = Some (JInt 0)"
    by (rule record_row_parsed) (simp only: nothing_to_parse_entries)
  moreover have "?r ''parse_comments'' = Some (JStr ''No transcribed text to parse.'')"
    by (rule record_row_parsed) (simp only: nothing_to_parse_entries)
  ultimately show "\<exists>r. process_one svc i path = ([ExtractCall i path], Inr r) \<and>
             r ''parse_confidence'' = Some (JInt 0) \<and>
             r ''parse_comments'' = Some (JStr ''No transcribed text to parse.'')"
    using p by (intro exI[of _ ?r]) simp
next
  assume h: "extract_from_image svc i path = Inl e"
  let ?r = "record_row path (extract_integer_from_filename (path_name path)) None
              (extraction_failed e) nothing_to_parse"
  have "?r ''parse_confidence'' = Some (JInt 0)"
    by (rule record_row_parsed) (simp only: nothing_to_parse_entries)
  moreover have "?r ''parse_comments'' = Some (JStr ''No transcribed text to parse.'')"
    by (rule record_row_parsed) (simp only: nothing_to_parse_entries)
  ultimately show "\<exists>r. process_one svc i path =
               ([ExtractCall i path,
                 ErrorLog (''Extraction failed for '' @ path @ '': '' @ exc_str e)], Inr r) \<and>
             r ''parse_confidence'' = Some (JInt 0) \<and>
             r ''parse_comments'' = Some (JStr ''No transcribed text to parse.'')"
    using process_one_extraction_failed[OF h] by (intro exI[of _ ?r]) simp
qed

theorem no_text_skips_field_parser_witness:
  "extract_from_image scenario 2 ''vials/vial_007.png'' =
     Inr (JObj [(''datamatrix_integer'', JStr ''7''),
                (''transcribed_text'', JStr []),
                (''transcription_confidence'', JInt 2),
                (''transcription_comments'', JStr ''blank label'')]) \<and>
   (\<exists>r. process_one scenario 2 ''vials/vial_007.png'' =
          ([ExtractCall 2 ''vials/vial_007.png''], Inr r) \<and>
        r ''parse_confidence'' = Some (JInt 0) \<and>
        r ''parse_comments'' = Some (JStr ''No transcribed text to parse.'')) \<and>
   (\<exists>r. process_one scenario 1 ''vials/DunnLab000188.jpg'' =
          ([ExtractCall 1 ''vials/DunnLab000188.jpg'',
            ErrorLog ''Extraction failed for vials/DunnLab000188.jpg: Request timed out.''], Inr r) \<and>
        r ''parse_confidence'' = Some (JInt 0) \<and>
        r ''parse_comments'' = Some (JStr ''No transcribed text to parse.''))"
proof -
  have a: "\<exists>r. process_one scenario 2 ''vials/vial_007.png'' =
          ([ExtractCall 2 ''vials/vial_007.png''], Inr r) \<and>
        r ''parse_confidence'' = Some (JInt 0) \<and>
        r ''parse_comments'' = Some (JStr ''No transcribed text to parse.'')"
    by (rule no_text_skips_field_parser[where ed = "[(''datamatrix_integer'', JStr ''7''),
                (''transcribed_text'', JStr []),
                (''transcription_confidence'', JInt 2),
                (''transcription_comments'', JStr ''blank label'')]", THEN conjunct1, rule_format])
       (simp add: scenario_extract_c dict_get_def)
  have b: "\<exists>r. process_one scenario 1 ''vials/DunnLab000188.jpg'' =
          ([ExtractCall 1 ''vials/DunnLab000188.jpg'',
            ErrorLog (''Extraction failed for '' @ ''vials/DunnLab000188.jpg'' @ '': '' @
              exc_str (PyException ''APITimeoutError'' ''Request timed out.''))], Inr r) \<and>
        r ''parse_confidence'' = Some (JInt 0) \<and>
        r ''parse_comments'' = Some (JStr ''No transcribed text to parse.'')"
    by (rule no_text_skips_field_parser[THEN conjunct2, rule_format])
       (rule scenario_extract_b)
  show ?thesis using a b by (simp add: scenario_extract_c)
qed

section \<open>Fence stripping\<close>



section \<open>A reply that is JSON but not an object\<close>

text \<open>
  C9. When the reply of the vision stage, after \<open>strip()\<close> and fence removal, is text
  that \<open>json.loads\<close> decodes to a value that is not a dict, \<open>extract_from_image\<close>
  returns that value without raising, and \<open>process_one\<close> raises \<open>AttributeError\<close> at
  \<open>extracted.get\<close>, outside the \<open>try\<close>: no row is produced. In the same way a parse
  reply that decodes to a value that is not a dict makes \<open>**parsed\<close> raise
  \<open>TypeError\<close>. When every value the two stages decode for the item is a dict,
  \<open>process_one\<close> returns a row.
\<close>

theorem non_object_reply_escapes:
  "(vision_reply svc i path = Inr content \<and>
    json_loads svc (strip_close_fence (strip_open_fence (py_strip content))) = Inr v \<and>
    \<not> is_object v
    \<longrightarrow> process_one svc i path =
          ([ExtractCall i path],
           Inl (PyException ''AttributeError''
                  (quoted (type_name v) @ '' object has no attribute '' @ quoted ''get'')))) \<and>
   (extract_from_image svc i path = Inr (JObj ed) \<and>
    py_truthy (dict_get ed ''transcribed_text'') \<and>
    parse_transcription svc i (dict_get ed ''transcribed_text'') = Inr w \<and> \<not> is_object w
    \<longrightarrow> process_one svc i path =
          ([ExtractCall i path, ParseCall i (dict_get ed ''transcribed_text'')],
           Inl (PyException ''TypeError'' (quoted (type_name w) @ '' object is not a mapping'')))) \<and>
   ((\<forall>v. extract_from_image svc i path = Inr v \<longrightarrow> is_object v) \<and>
    (\<forall>t v. parse_transcription svc i t = Inr v \<longrightarrow> is_object v)
    \<longrightarrow> (\<exists>evs r. process_one svc i path = (evs, Inr r)))"
proof (intro conjI impI)
  assume h: "vision_reply svc i path = Inr content \<and>
    json_loads svc (strip_close_fence (strip_open_fence (py_strip content))) = Inr v \<and>
    \<not> is_object v"
  then have "extract_from_image svc i path = Inr v"
    by (simp add: extract_from_image_def decode_reply_def)
  with h show "process_one svc i path =
          ([ExtractCall i path],
           Inl (PyException ''AttributeError''
                  (quoted (type_name v) @ '' object has no attribute '' @ quoted ''get'')))"
    by (intro process_one_not_object) simp_all
next
  assume "extract_from_image svc i path = Inr (JObj ed) \<and>
    py_truthy (dict_get ed ''transcribed_text'') \<and>
    parse_transcription svc i (dict_get ed ''transcribed_text'') = Inr w \<and> \<not> is_object w"
  then show "process_one svc i path =
          ([ExtractCall i path, ParseCall i (dict_get ed ''transcribed_text'')],
           Inl (PyException ''TypeError'' (quoted (type_name w) @ '' object is not a mapping'')))"
    by (intro process_one_parsed_not_object) simp_all
next
  assume "(\<forall>v. extract_from_image svc i path = Inr v \<longrightarrow> is_object v) \<and>
    (\<forall>t v. parse_transcription svc i t = Inr v \<longrightarrow> is_object v)"
  then show "\<exists>evs r. process_one svc i path = (evs, Inr r)"
    by (intro process_one_objects) auto
qed

theorem non_object_reply_escapes_witness:
  "vision_reply scenario 3 ''vials/DunnLab000190.jpg'' = Inr ''[]'' \<and>
   json_loads scenario (strip_close_fence (strip_open_fence (py_strip ''[]''))) = Inr (JArr []) \<and>
   process_one scenario 3 ''vials/DunnLab000190.jpg'' =
     ([ExtractCall 3 ''vials/DunnLab000190.jpg''],
      Inl (PyException ''AttributeError''
             (quoted ''list'' @ '' object has no attribute '' @ quoted ''get''))) \<and>
   parse_transcription array_parser 0 (JStr ''Nanomia 187'') = Inr (JArr []) \<and>
   process_one array_parser 0 ''vials/DunnLab000187.jpg'' =
     ([ExtractCall 0 ''vials/DunnLab000187.jpg'', ParseCall 0 (JStr ''Nanomia 187'')],
      Inl (PyException ''TypeError'' (quoted ''list'' @ '' object is not a mapping''))) \<and>
   (\<exists>evs r. process_one scenario 0 ''vials/DunnLab000187.jpg'' = (evs, Inr r))"
proof -
  have v: "vision_reply scenario 3 ''vials/DunnLab000190.jpg'' = Inr ''[]''"
    by (simp add: scenario_def)
  have l: "json_loads scenario (strip_close_fence (strip_open_fence (py_strip ''[]''))) = Inr (JArr [])"
    using decode_array by (simp add: decode_reply_def scenario_def)
  have a: "process_one scenario 3 ''vials/DunnLab000190.jpg'' =
     ([ExtractCall 3 ''vials/DunnLab000190.jpg''],
      Inl (PyException ''AttributeError''
             (quoted (type_name (JArr [])) @ '' object has no attribute '' @ quoted ''get'')))"
    by (rule non_object_reply_escapes[where content = "''[]''", THEN conjunct1, rule_format])
       (simp add: v l)
  let ?ed = "[(''datamatrix_integer'', JStr ''187''),
                (''transcribed_text'', JStr ''Nanomia 187''),
                (''transcription_confidence'', JInt 9),
                (''transcription_comments'', JStr [])]"
  have g: "dict_get ?ed ''transcribed_text'' = JStr ''Nanomia 187''"
    by (simp add: dict_get_def)
  have "process_one array_parser 0 ''vials/DunnLab000187.jpg'' =
     ([ExtractCall 0 ''vials/DunnLab000187.jpg'', ParseCall 0 (dict_get ?ed ''transcribed_text'')],
      Inl (PyException ''TypeError'' (quoted (type_name (JArr [])) @ '' object is not a mapping'')))"
    by (rule non_object_reply_escapes[THEN conjunct2, THEN conjunct1, rule_format])
       (simp add: array_parser_extract array_parser_parse g)
  then have b: "process_one array_parser 0 ''vials/DunnLab000187.jpg'' =
     ([ExtractCall 0 ''vials/DunnLab000187.jpg'', ParseCall 0 (JStr ''Nanomia 187'')],
      Inl (PyException ''TypeError'' (quoted ''list'' @ '' object is not a mapping'')))"
    by (simp add: g)
  have c: "\<exists>evs r. process_one scenario 0 ''vials/DunnLab000187.jpg'' = (evs, Inr r)"
    by (rule non_object_reply_escapes[THEN conjunct2, THEN conjunct2, rule_format])
       (simp add: scenario_extract_a scenario_parse)
  show ?thesis using v l a b c by (simp add: array_parser_parse)
qed

section \<open>Leading zeros in the fallback tier\<close>

text \<open>
  C10. When the stem has no vendor pattern but has digits, the identifier returned is
  the first run of digits of the stem, character for character: zeros at its front are
  kept (\<open>vial_007.png\<close> gives \<open>007\<close>). Zeros are dropped in the vendor tier only (see
  C5). So an identifier with zeros in front compares unequal to the same number without
  them on the DataMatrix side, and \<open>datamatrix_match\<close> is false.
\<close>

theorem fallback_tier_keeps_leading_zeros:
  "(\<forall>pre ds post.
      \<not> vendor_pattern_in (path_stem name) \<and> path_stem name = pre @ ds @ post \<and>
      list_all (\<lambda>c. \<not> is_digit c) pre \<and> ds \<noteq> [] \<and> list_all is_digit ds \<and>
      (post = [] \<or> \<not> is_digit (hd post))
      \<longrightarrow> extract_integer_from_filename name = Some ds) \<and>
   (\<forall>zs r. zs \<noteq> [] \<and> set zs \<subseteq> {CHR ''0''}
      \<longrightarrow> datamatrix_match (JStr r) (Some (zs @ r)) = Some False)"
proof (intro conjI allI impI)
  fix pre ds post
  assume "\<not> vendor_pattern_in (path_stem name) \<and> path_stem name = pre @ ds @ post \<and>
      list_all (\<lambda>c. \<not> is_digit c) pre \<and> ds \<noteq> [] \<and> list_all is_digit ds \<and>
      (post = [] \<or> \<not> is_digit (hd post))"
  then have "\<not> vendor_pattern_in (path_stem name)" "path_stem name = pre @ ds @ post"
    "\<forall>c\<in>set pre. \<not> is_digit c" "ds \<noteq> []" "\<forall>c\<in>set ds. is_digit c"
    "post = [] \<or> \<not> is_digit (hd post)"
    by (auto simp: list_all_iff)
  then show "extract_integer_from_filename name = Some ds"
    by (rule fallback_tier_value)
next
  fix zs r
  assume "zs \<noteq> [] \<and> set zs \<subseteq> {CHR ''0''}"
  then have "zs @ r \<noteq> r" by simp
  then show "datamatrix_match (JStr r) (Some (zs @ r)) = Some False"
    by (auto simp: datamatrix_match_def)
qed

theorem fallback_tier_keeps_leading_zeros_witness:
  "\<not> vendor_pattern_in (path_stem ''vial_007.png'') \<and>
   path_stem ''vial_007.png'' = ''vial_'' @ ''007'' @ [] \<and>
   extract_integer_from_filename ''vial_007.png'' = Some ''007'' \<and>
   datamatrix_match (JStr ''7'') (Some ''007'') = Some False"
proof -
  note t1 = fallback_tier_keeps_leading_zeros[of "''vial_007.png''", THEN conjunct1, rule_format,
      of "''vial_''" "''007''" "[]"]
  note t2 = fallback_tier_keeps_leading_zeros[of "''vial_007.png''", THEN conjunct2, rule_format,
      of "''00''" "''7''"]
  have a: "extract_integer_from_filename ''vial_007.png'' = Some ''007''"
    by (rule t1) (simp add: stem_vial_007 no_vendor_vial_007 is_digit_def)
  have b: "datamatrix_match (JStr ''7'') (Some ''007'') = Some False"
    using t2 by simp
  show ?thesis using a b by (simp add: stem_vial_007 no_vendor_vial_007)
qed

end
